theory Spec2Isabelle
  imports Complex_Main
begin

section \<open>The clipboard canvas of ClipNest\<close>

text \<open>
  A shallow embedding of the canvas component (the Vue single-file component with
  \<^verbatim>\<open>computeEdgeResize\<close>, \<^verbatim>\<open>computeCornerResize\<close>, \<^verbatim>\<open>addCanvasItem\<close>, \<^verbatim>\<open>undo\<close>, ...).

  Modelling decisions:
  \<^item> A JavaScript \<^verbatim>\<open>number\<close> that carries a coordinate, a size or a scale factor is a
    \<^typ>\<open>real\<close>. A product or a quotient that the source computes with a scale factor is
    rounded to the nearest double (\<open>toDouble\<close>: 53 significant bits, ties to even), as the
    source's \<^verbatim>\<open>*\<close> and \<^verbatim>\<open>/\<close> do. In the corner resize, where a sum or a difference
    with the pointer distance feeds such a quotient, every operation is rounded.
    Elsewhere sums, differences and halvings are exact, as they are in doubles on whole
    and half pixels. The exponent of \<open>toDouble\<close> is unbounded: there is no overflow to
    infinity, no subnormal number, no NaN and no negative zero. Where the source can
    produce a non-finite number (a division by a zero start size in the corner resize)
    the model returns \<open>None\<close>.
  \<^item> The counters \<^verbatim>\<open>nextZIndex\<close> and \<^verbatim>\<open>placementOffsetIndex\<close> (they start at an integer and
    are only incremented by one) and the timestamp \<^verbatim>\<open>Date.now()\<close> are \<^typ>\<open>int\<close>.
  \<^item> \<^verbatim>\<open>Math.round v\<close> is \<open>\<lfloor>v + 1/2\<rfloor>\<close> (halves round towards plus infinity).
  \<^item> The reactive refs \<^verbatim>\<open>state\<close>, \<^verbatim>\<open>undoStack\<close>, \<^verbatim>\<open>noticeMessage\<close> and \<^verbatim>\<open>interaction\<close> are
    the fields of one record that every handler takes and returns.
  \<^item> What a handler reads from its environment is a parameter: the prop \<^verbatim>\<open>active\<close>, the
    scroll viewport, the fresh identifier of \<^verbatim>\<open>crypto.randomUUID()\<close>, the clock, the
    outcome of a decode and the answer of the clipboard bridge.
  \<^item> A handler that touches the component only after its awaits (paste, copy) is one
    step, taken when the awaits settle. \<^verbatim>\<open>addDroppedFiles\<close> reads the state before its
    awaits and writes it after them: it is a task that runs from one await to the next,
    and other handlers run in between.
  \<^item> The notice texts are Japanese string literals in the source; each literal is a
    constructor of \<open>Notice\<close> here, the two templates carry their counts.
\<close>

subsection \<open>Constants\<close>

definition CANVAS_WIDTH :: real where [simp]: "CANVAS_WIDTH = 2000"
definition CANVAS_HEIGHT :: real where [simp]: "CANVAS_HEIGHT = 2000"
definition MAX_IMAGES :: nat where [simp]: "MAX_IMAGES = 50"
definition MIN_SIZE :: real where [simp]: "MIN_SIZE = 24"
definition INITIAL_MAX_SIDE :: real where [simp]: "INITIAL_MAX_SIDE = 420"
definition INITIAL_MIN_SIDE :: real where [simp]: "INITIAL_MIN_SIDE = 80"
definition UNDO_LIMIT :: nat where [simp]: "UNDO_LIMIT = 50"
definition PLACEMENT_OFFSET_STEP :: real where [simp]: "PLACEMENT_OFFSET_STEP = 24"

subsection \<open>Data model\<close>

datatype ImageSource = SourcePaste | SourceDrop

text \<open>
  \<^verbatim>\<open>CanvasImageItem\<close>. The fields \<^verbatim>\<open>id\<close>, \<^verbatim>\<open>x\<close> and \<^verbatim>\<open>y\<close> are \<open>itemId\<close>, \<open>posX\<close> and
  \<open>posY\<close> here (\<open>id\<close> is the identity function of HOL, and a field named \<open>x\<close> would
  capture every variable of that name).
\<close>

record CanvasImageItem =
  itemId :: string
  source :: ImageSource
  dataUrl :: string
  naturalWidth :: real
  naturalHeight :: real
  posX :: real
  posY :: real
  width :: real
  height :: real
  zIndex :: int
  createdAt :: int

record ClipboardCanvasState =
  items :: "CanvasImageItem list"
  selectedId :: "string option"
  nextZIndex :: int
  placementOffsetIndex :: int

type_synonym ClipboardCanvasSnapshot = ClipboardCanvasState

datatype ResizeHandle =
  HandleN | HandleNE | HandleE | HandleSE | HandleS | HandleSW | HandleW | HandleNW

fun handle_text :: "ResizeHandle \<Rightarrow> string" where
  "handle_text HandleN = ''n''"
| "handle_text HandleNE = ''ne''"
| "handle_text HandleE = ''e''"
| "handle_text HandleSE = ''se''"
| "handle_text HandleS = ''s''"
| "handle_text HandleSW = ''sw''"
| "handle_text HandleW = ''w''"
| "handle_text HandleNW = ''nw''"

text \<open>\<^verbatim>\<open>handle.includes("e")\<close> for a one-character argument.\<close>

definition handle_includes :: "ResizeHandle \<Rightarrow> char \<Rightarrow> bool" where
  "handle_includes h c = (c \<in> set (handle_text h))"

definition isCornerHandle :: "ResizeHandle \<Rightarrow> bool" where
  "isCornerHandle h = (length (handle_text h) = 2)"

datatype Interaction =
  MoveInteraction
    (sessionItemId: string) (startClientX: real) (startClientY: real)
    (startX: real) (startY: real) (startSnapshot: ClipboardCanvasSnapshot)
| ResizeInteraction
    (sessionItemId: string) (handle: ResizeHandle) (startClientX: real) (startClientY: real)
    (startX: real) (startY: real) (startWidth: real) (startHeight: real)
    (startSnapshot: ClipboardCanvasSnapshot)

text \<open>The rectangle a resize returns: \<^verbatim>\<open>{ x, y, width, height }\<close>.\<close>

record Geometry =
  geomX :: real
  geomY :: real
  geomWidth :: real
  geomHeight :: real

subsection \<open>Geometry engine\<close>

text \<open>
  Doubles. \<open>binade x\<close> is the power of two \<open>p\<close> with \<open>p \<le> x < 2 * p\<close>, for a positive \<open>x\<close>;
  the doubles between \<open>p\<close> and \<open>2 * p\<close> are the multiples of \<open>p / 2 ^ 52\<close>, and \<open>toDouble x\<close>
  is the one nearest to \<open>x\<close>, the one with an even multiplier when two are equally near.
\<close>

function binade :: "real \<Rightarrow> real" where
  "binade x = (if 2 \<le> x then 2 * binade (x / 2)
               else if 0 < x \<and> x < 1 then binade (x * 2) / 2
               else 1)"
  by pat_completeness auto

definition binadeDepth :: "real \<Rightarrow> nat" where
  "binadeDepth x = (if 1 \<le> x \<and> x < 2 then 0 else 1 + nat \<lfloor>\<bar>log 2 x\<bar>\<rfloor>)"

termination binade
proof (relation "measure binadeDepth")
  show "wf (measure binadeDepth)" by simp
next
  fix x :: real
  assume x: "2 \<le> x"
  have l1: "1 \<le> log 2 x" using x by (simp add: le_log_iff)
  have lh: "log 2 (x / 2) = log 2 x - 1" using x by (simp add: log_divide)
  have dx: "binadeDepth x = 1 + nat \<lfloor>log 2 x\<rfloor>"
    using x l1 by (simp add: binadeDepth_def)
  have "binadeDepth (x / 2) < binadeDepth x"
  proof (cases "x / 2 < 2")
    case True
    then have "binadeDepth (x / 2) = 0" using x by (simp add: binadeDepth_def)
    then show ?thesis using dx by simp
  next
    case False
    then have "1 \<le> log 2 (x / 2)" by (simp add: le_log_iff)
    then have "binadeDepth (x / 2) = 1 + nat \<lfloor>log 2 x - 1\<rfloor>"
      using False lh by (simp add: binadeDepth_def)
    also have "\<dots> = 1 + nat (\<lfloor>log 2 x\<rfloor> - 1)" by (simp add: floor_diff_one)
    also have "\<dots> < 1 + nat \<lfloor>log 2 x\<rfloor>"
      using l1 by (simp add: le_floor_iff)
    finally show ?thesis using dx by simp
  qed
  then show "(x / 2, x) \<in> measure binadeDepth" by simp
next
  fix x :: real
  assume "\<not> 2 \<le> x" and x: "0 < x \<and> x < 1"
  have l0: "log 2 x < 0" using x by simp
  have ld: "log 2 (x * 2) = log 2 x + 1" using x by (simp add: log_mult)
  have dx: "binadeDepth x = 1 + nat \<lfloor>- log 2 x\<rfloor>"
    using x l0 by (simp add: binadeDepth_def)
  have "binadeDepth (x * 2) < binadeDepth x"
  proof (cases "1 \<le> x * 2")
    case True
    then have "binadeDepth (x * 2) = 0" using x by (simp add: binadeDepth_def)
    then show ?thesis using dx by simp
  next
    case False
    then have x2: "x * 2 < 1" by simp
    then have neg: "log 2 (x * 2) < 0" using x by simp
    then have "binadeDepth (x * 2) = 1 + nat \<lfloor>- log 2 x - 1\<rfloor>"
      using x2 ld by (simp add: binadeDepth_def)
    also have "\<dots> = 1 + nat (\<lfloor>- log 2 x\<rfloor> - 1)" by (simp add: floor_diff_one)
    also have "\<dots> < 1 + nat \<lfloor>- log 2 x\<rfloor>"
    proof -
      have "1 \<le> - log 2 x" using neg ld by simp
      then have "1 \<le> \<lfloor>- log 2 x\<rfloor>" by (simp add: le_floor_iff)
      then show ?thesis by simp
    qed
    finally show ?thesis using dx by simp
  qed
  then show "(x * 2, x) \<in> measure binadeDepth" by simp
qed

declare binade.simps [simp del]

definition roundTiesToEven :: "real \<Rightarrow> int" where
  "roundTiesToEven m =
    (let n = \<lfloor>m\<rfloor>; r = m - of_int n
     in if r < 1 / 2 then n else if 1 / 2 < r then n + 1 else if even n then n else n + 1)"

definition toDouble :: "real \<Rightarrow> real" where
  "toDouble x =
    (if x = 0 then 0
     else let u = binade \<bar>x\<bar> / 2 ^ 52
          in sgn x * (of_int (roundTiesToEven (\<bar>x\<bar> / u)) * u))"

definition Math_round :: "real \<Rightarrow> real" where
  "Math_round v = of_int \<lfloor>v + 1 / 2\<rfloor>"

definition clamp :: "real \<Rightarrow> real \<Rightarrow> real \<Rightarrow> real" where
  "clamp v lo hi = (if hi < lo then lo else min hi (max lo v))"

definition computeEdgeResize :: "Interaction \<Rightarrow> real \<Rightarrow> real \<Rightarrow> Geometry" where
  "computeEdgeResize current deltaX deltaY =
    (let h = handle current;
         nextX = startX current;
         nextY = startY current;
         nextWidth = startWidth current;
         nextHeight = startHeight current;
         nextWidth = (if handle_includes h CHR ''e'' then startWidth current + deltaX else nextWidth);
         nextHeight = (if handle_includes h CHR ''s'' then startHeight current + deltaY else nextHeight);
         (nextWidth, nextX) =
           (if handle_includes h CHR ''w''
            then (startWidth current - deltaX, startX current + deltaX) else (nextWidth, nextX));
         (nextHeight, nextY) =
           (if handle_includes h CHR ''n''
            then (startHeight current - deltaY, startY current + deltaY) else (nextHeight, nextY));
         (nextX, nextWidth) =
           (if nextWidth < MIN_SIZE
            then ((if handle_includes h CHR ''w''
                   then startX current + (startWidth current - MIN_SIZE) else nextX), MIN_SIZE)
            else (nextX, nextWidth));
         (nextY, nextHeight) =
           (if nextHeight < MIN_SIZE
            then ((if handle_includes h CHR ''n''
                   then startY current + (startHeight current - MIN_SIZE) else nextY), MIN_SIZE)
            else (nextY, nextHeight));
         (nextWidth, nextX) =
           (if nextX < 0
            then ((if handle_includes h CHR ''w'' then nextWidth + nextX else nextWidth), 0)
            else (nextWidth, nextX));
         (nextHeight, nextY) =
           (if nextY < 0
            then ((if handle_includes h CHR ''n'' then nextHeight + nextY else nextHeight), 0)
            else (nextHeight, nextY));
         (nextWidth, nextX) =
           (if nextX + nextWidth > CANVAS_WIDTH
            then (if handle_includes h CHR ''e''
                  then (CANVAS_WIDTH - nextX, nextX) else (nextWidth, CANVAS_WIDTH - nextWidth))
            else (nextWidth, nextX));
         (nextHeight, nextY) =
           (if nextY + nextHeight > CANVAS_HEIGHT
            then (if handle_includes h CHR ''s''
                  then (CANVAS_HEIGHT - nextY, nextY) else (nextHeight, CANVAS_HEIGHT - nextHeight))
            else (nextHeight, nextY));
         nextWidth = max MIN_SIZE nextWidth;
         nextHeight = max MIN_SIZE nextHeight;
         nextX = clamp nextX 0 (CANVAS_WIDTH - nextWidth);
         nextY = clamp nextY 0 (CANVAS_HEIGHT - nextHeight)
     in \<lparr> geomX = Math_round nextX, geomY = Math_round nextY,
          geomWidth = Math_round nextWidth, geomHeight = Math_round nextHeight \<rparr>)"

text \<open>
  The scale factor of a corner resize, before it is applied. With a start width or height
  of zero the source divides by zero and every later value is infinite or NaN; the model
  has no such numbers, so \<open>computeCornerResize\<close> returns \<open>None\<close> there.
  \<^verbatim>\<open>Number.isFinite(scale)\<close> holds in every other case, so that branch of the source is
  the identity on the values of the model.
\<close>

definition cornerAnchorX :: "Interaction \<Rightarrow> real" where
  "cornerAnchorX current =
    (if handle_includes (handle current) CHR ''w''
     then toDouble (startX current + startWidth current) else startX current)"

definition cornerAnchorY :: "Interaction \<Rightarrow> real" where
  "cornerAnchorY current =
    (if handle_includes (handle current) CHR ''n''
     then toDouble (startY current + startHeight current) else startY current)"

definition cornerRawWidth :: "Interaction \<Rightarrow> real \<Rightarrow> real" where
  "cornerRawWidth current deltaX =
    (let h = handle current;
         anchorX = cornerAnchorX current;
         pointerX = (if handle_includes h CHR ''w''
                     then toDouble (startX current + deltaX)
                     else toDouble (toDouble (startX current + startWidth current) + deltaX))
     in if handle_includes h CHR ''w''
        then toDouble (anchorX - pointerX) else toDouble (pointerX - anchorX))"

definition cornerRawHeight :: "Interaction \<Rightarrow> real \<Rightarrow> real" where
  "cornerRawHeight current deltaY =
    (let h = handle current;
         anchorY = cornerAnchorY current;
         pointerY = (if handle_includes h CHR ''n''
                     then toDouble (startY current + deltaY)
                     else toDouble (toDouble (startY current + startHeight current) + deltaY))
     in if handle_includes h CHR ''n''
        then toDouble (anchorY - pointerY) else toDouble (pointerY - anchorY))"

definition cornerMinScale :: "Interaction \<Rightarrow> real" where
  "cornerMinScale current =
    max (toDouble (MIN_SIZE / startWidth current)) (toDouble (MIN_SIZE / startHeight current))"

definition cornerMaxWidth :: "Interaction \<Rightarrow> real" where
  "cornerMaxWidth current =
    (let anchorX = cornerAnchorX current
     in if handle_includes (handle current) CHR ''w''
        then anchorX else toDouble (CANVAS_WIDTH - anchorX))"

definition cornerMaxHeight :: "Interaction \<Rightarrow> real" where
  "cornerMaxHeight current =
    (let anchorY = cornerAnchorY current
     in if handle_includes (handle current) CHR ''n''
        then anchorY else toDouble (CANVAS_HEIGHT - anchorY))"

definition cornerMaxScale :: "Interaction \<Rightarrow> real" where
  "cornerMaxScale current =
    max (cornerMinScale current)
      (min (toDouble (cornerMaxWidth current / startWidth current))
           (toDouble (cornerMaxHeight current / startHeight current)))"

definition cornerScale :: "Interaction \<Rightarrow> real \<Rightarrow> real \<Rightarrow> real" where
  "cornerScale current deltaX deltaY =
    (let minScale = cornerMinScale current;
         scale = max (max (toDouble (cornerRawWidth current deltaX / startWidth current))
                          (toDouble (cornerRawHeight current deltaY / startHeight current)))
                     minScale
     in clamp scale minScale (cornerMaxScale current))"

definition computeCornerResize :: "Interaction \<Rightarrow> real \<Rightarrow> real \<Rightarrow> Geometry option" where
  "computeCornerResize current deltaX deltaY =
    (if startWidth current = 0 \<or> startHeight current = 0 then None
     else
      let h = handle current;
          anchorX = cornerAnchorX current;
          anchorY = cornerAnchorY current;
          scale = cornerScale current deltaX deltaY;
          w = max MIN_SIZE (Math_round (toDouble (startWidth current * scale)));
          h' = max MIN_SIZE (Math_round (toDouble (startHeight current * scale)));
          x = (if handle_includes h CHR ''w'' then toDouble (anchorX - w) else anchorX);
          y = (if handle_includes h CHR ''n'' then toDouble (anchorY - h') else anchorY);
          x = clamp x 0 (toDouble (CANVAS_WIDTH - w));
          y = clamp y 0 (toDouble (CANVAS_HEIGHT - h'))
      in Some \<lparr> geomX = Math_round x, geomY = Math_round y, geomWidth = w, geomHeight = h' \<rparr>)"

subsection \<open>Canvas state store\<close>

text \<open>\<^verbatim>\<open>deepCloneItems\<close> copies every item object; on values the copy is the item itself.\<close>

definition deepCloneItems :: "CanvasImageItem list \<Rightarrow> CanvasImageItem list" where
  "deepCloneItems its = map (\<lambda>item. item) its"

definition getItemById :: "string \<Rightarrow> ClipboardCanvasState \<Rightarrow> CanvasImageItem option" where
  "getItemById iid s = find (\<lambda>item. itemId item = iid) (items s)"

definition updateItem ::
  "string \<Rightarrow> (CanvasImageItem \<Rightarrow> CanvasImageItem) \<Rightarrow> ClipboardCanvasState \<Rightarrow> ClipboardCanvasState" where
  "updateItem iid updater s =
    s\<lparr> items := map (\<lambda>item. if itemId item = iid then updater item else item) (items s) \<rparr>"

text \<open>\<^verbatim>\<open>bringToFront\<close> returns whether it raised the item, next to the new state.\<close>

definition bringToFront :: "string \<Rightarrow> ClipboardCanvasState \<Rightarrow> ClipboardCanvasState \<times> bool" where
  "bringToFront iid s =
    (case getItemById iid s of
       None \<Rightarrow> (s, False)
     | Some current \<Rightarrow>
        let currentMaxZ = foldl (\<lambda>maxZ item. max maxZ (zIndex item)) 0 (items s)
        in if zIndex current \<ge> currentMaxZ then (s, False)
           else let nextZ = nextZIndex s;
                    s = s\<lparr> nextZIndex := nextZIndex s + 1 \<rparr>
                in (updateItem iid (\<lambda>item. item\<lparr> zIndex := nextZ \<rparr>) s, True))"

definition selectItem :: "string \<Rightarrow> ClipboardCanvasState \<Rightarrow> ClipboardCanvasState" where
  "selectItem iid s = fst (bringToFront iid (s\<lparr> selectedId := Some iid \<rparr>))"

text \<open>
  The truthiness of a \<^verbatim>\<open>string | null\<close>: \<^verbatim>\<open>null\<close> and the empty string are falsy.
\<close>

fun truthy :: "string option \<Rightarrow> bool" where
  "truthy None = False"
| "truthy (Some str) = (str \<noteq> [])"

text \<open>
  \<^verbatim>\<open>Array.prototype.sort\<close> is stable, and so is \<^const>\<open>sort_key\<close> (insertion sort);
  \<^verbatim>\<open>slice(0, overflow)\<close> is \<^const>\<open>take\<close>; the \<^verbatim>\<open>Set\<close> of ids is the list of its members.
\<close>

definition enforceImageLimit :: "ClipboardCanvasState \<Rightarrow> ClipboardCanvasState" where
  "enforceImageLimit s =
    (if length (items s) \<le> MAX_IMAGES then s
     else
      let overflow = length (items s) - MAX_IMAGES;
          removeIds = map itemId (take overflow (sort_key createdAt (items s)));
          s = s\<lparr> items := filter (\<lambda>item. itemId item \<notin> set removeIds) (items s) \<rparr>
      in if truthy (selectedId s) \<and> the (selectedId s) \<in> set removeIds
         then s\<lparr> selectedId := None \<rparr> else s)"

definition normalizeInitialSize :: "real \<Rightarrow> real \<Rightarrow> real \<times> real" where
  "normalizeInitialSize natW natH =
    (let w = max 1 natW;
         h = max 1 natH;
         longest = max w h;
         scale = (if longest > INITIAL_MAX_SIDE then toDouble (INITIAL_MAX_SIDE / longest)
                  else if longest < INITIAL_MIN_SIDE then toDouble (INITIAL_MIN_SIDE / longest)
                  else 1)
     in (max MIN_SIZE (Math_round (toDouble (w * scale))),
         max MIN_SIZE (Math_round (toDouble (h * scale)))))"

subsection \<open>Placement allocator\<close>

text \<open>The scroll viewport element, as far as \<^verbatim>\<open>getViewportCenter\<close> reads it.\<close>

record Viewport =
  scrollLeft :: real
  scrollTop :: real
  clientWidth :: real
  clientHeight :: real

definition getViewportCenter :: "Viewport option \<Rightarrow> real \<times> real" where
  "getViewportCenter viewport =
    (case viewport of
       None \<Rightarrow> (CANVAS_WIDTH / 2, CANVAS_HEIGHT / 2)
     | Some v \<Rightarrow> (scrollLeft v + clientWidth v / 2, scrollTop v + clientHeight v / 2))"

definition isOutOfBounds :: "real \<Rightarrow> real \<Rightarrow> real \<Rightarrow> real \<Rightarrow> bool" where
  "isOutOfBounds x y w h = (x < 0 \<or> y < 0 \<or> x + w > CANVAS_WIDTH \<or> y + h > CANVAS_HEIGHT)"

text \<open>The local function \<^verbatim>\<open>calc\<close> of \<^verbatim>\<open>resolveInitialPlacement\<close>.\<close>

definition calc :: "real \<times> real \<Rightarrow> real \<Rightarrow> real \<Rightarrow> int \<Rightarrow> real \<times> real" where
  "calc center w h offsetIndex =
    (Math_round (fst center - w / 2 + of_int offsetIndex * PLACEMENT_OFFSET_STEP),
     Math_round (snd center - h / 2 + of_int offsetIndex * PLACEMENT_OFFSET_STEP))"

definition resolveInitialPlacement ::
  "Viewport option \<Rightarrow> real \<Rightarrow> real \<Rightarrow> ClipboardCanvasState \<Rightarrow> (real \<times> real) \<times> ClipboardCanvasState" where
  "resolveInitialPlacement viewport w h s =
    (let center = getViewportCenter viewport;
         offsetIndex = placementOffsetIndex s;
         point = calc center w h offsetIndex;
         (offsetIndex, point) =
           (if isOutOfBounds (fst point) (snd point) w h
            then (0, calc center w h 0) else (offsetIndex, point));
         s = s\<lparr> placementOffsetIndex := offsetIndex + 1 \<rparr>
     in ((clamp (fst point) 0 (CANVAS_WIDTH - w), clamp (snd point) 0 (CANVAS_HEIGHT - h)), s))"

text \<open>
  What one \<^verbatim>\<open>addCanvasItem\<close> reads from its environment: the viewport element (or none),
  the identifier \<^verbatim>\<open>crypto.randomUUID()\<close> returns and the clock \<^verbatim>\<open>Date.now()\<close>.
\<close>

record AddEnv =
  viewport :: "Viewport option"
  randomUUID :: string
  dateNow :: int

definition createCanvasItem ::
  "AddEnv \<Rightarrow> string \<Rightarrow> real \<Rightarrow> real \<Rightarrow> ImageSource \<Rightarrow> ClipboardCanvasState
    \<Rightarrow> CanvasImageItem \<times> ClipboardCanvasState" where
  "createCanvasItem env url natW natH src s =
    (let size = normalizeInitialSize natW natH;
         (placement, s) = resolveInitialPlacement (viewport env) (fst size) (snd size) s;
         nextZ = nextZIndex s;
         s = s\<lparr> nextZIndex := nextZIndex s + 1 \<rparr>
     in (\<lparr> itemId = randomUUID env, source = src, dataUrl = url,
           naturalWidth = natW, naturalHeight = natH,
           posX = fst placement, posY = snd placement,
           width = fst size, height = snd size,
           zIndex = nextZ, createdAt = dateNow env \<rparr>, s))"

definition addCanvasItem ::
  "AddEnv \<Rightarrow> string \<Rightarrow> real \<Rightarrow> real \<Rightarrow> ImageSource \<Rightarrow> ClipboardCanvasState
    \<Rightarrow> ClipboardCanvasState" where
  "addCanvasItem env url natW natH src s =
    (let (newItem, s) = createCanvasItem env url natW natH src s;
         s = s\<lparr> items := items s @ [newItem] \<rparr>;
         s = s\<lparr> selectedId := Some (itemId newItem) \<rparr>
     in enforceImageLimit s)"

definition removeItem :: "string \<Rightarrow> ClipboardCanvasState \<Rightarrow> ClipboardCanvasState \<times> bool" where
  "removeItem iid s =
    (let beforeLength = length (items s);
         s = s\<lparr> items := filter (\<lambda>item. itemId item \<noteq> iid) (items s) \<rparr>;
         s = (if length (items s) \<noteq> beforeLength \<and> selectedId s = Some iid
              then s\<lparr> selectedId := None \<rparr> else s)
     in (s, length (items s) \<noteq> beforeLength))"

subsection \<open>The component: live state, history, notice, session\<close>

datatype Notice =
    NoticeInitial \<comment> \<open>the hint shown at start\<close>
  | NoticeUndone \<comment> \<open>"undone"\<close>
  | NoticeDeleted \<comment> \<open>"deleted the selected image"\<close>
  | NoticeDropNoImageFiles \<comment> \<open>"drop image files"\<close>
  | NoticeDropNothingAdded \<comment> \<open>"could not add an image"\<close>
  | NoticeDropPartial nat nat \<comment> \<open>"added \<open>successCount\<close>, \<open>failureCount\<close> failed"\<close>
  | NoticeDropAdded nat \<comment> \<open>"added \<open>successCount\<close> images"\<close>
  | NoticeCopyNoData \<comment> \<open>"could not build the data to copy"\<close>
  | NoticeCopied \<comment> \<open>"copied the selected image to the clipboard"\<close>
  | NoticeCopyInvalidPayload \<comment> \<open>"the data to copy is invalid"\<close>
  | NoticeCopyDecodeFailed \<comment> \<open>"converting the image data failed"\<close>
  | NoticeCopyWriteFailed \<comment> \<open>"writing to the OS clipboard failed"\<close>
  | NoticeCopyFailed \<comment> \<open>"copy failed"\<close>
  | NoticePasteEmpty \<comment> \<open>"no image in the clipboard"\<close>
  | NoticePasted \<comment> \<open>"added the image"\<close>
  | NoticePasteFailed \<comment> \<open>"paste failed"\<close>

record Component =
  state :: ClipboardCanvasState
  undoStack :: "ClipboardCanvasSnapshot list"
  noticeMessage :: Notice
  isDragActive :: bool
  interaction :: "Interaction option"

definition initialState :: ClipboardCanvasState where
  "initialState = \<lparr> items = [], selectedId = None, nextZIndex = 1, placementOffsetIndex = 0 \<rparr>"

definition initialComponent :: Component where
  "initialComponent =
    \<lparr> state = initialState, undoStack = [], noticeMessage = NoticeInitial,
      isDragActive = False, interaction = None \<rparr>"

definition selectedItem :: "Component \<Rightarrow> CanvasImageItem option" where
  "selectedItem a = find (\<lambda>item. Some (itemId item) = selectedId (state a)) (items (state a))"

definition canUndo :: "Component \<Rightarrow> bool" where
  "canUndo a = (length (undoStack a) > 0)"

subsection \<open>History manager\<close>

definition createSnapshot :: "Component \<Rightarrow> ClipboardCanvasSnapshot" where
  "createSnapshot a =
    \<lparr> items = deepCloneItems (items (state a)), selectedId = selectedId (state a),
      nextZIndex = nextZIndex (state a), placementOffsetIndex = placementOffsetIndex (state a) \<rparr>"

definition applySnapshot :: "ClipboardCanvasSnapshot \<Rightarrow> Component \<Rightarrow> Component" where
  "applySnapshot snapshot a =
    a\<lparr> state := \<lparr> items = deepCloneItems (items snapshot), selectedId = selectedId snapshot,
                  nextZIndex = nextZIndex snapshot,
                  placementOffsetIndex = placementOffsetIndex snapshot \<rparr> \<rparr>"

text \<open>
  \<^verbatim>\<open>JSON.stringify\<close> of the three fields; two such strings are equal exactly when the
  fields are, so the comparable is the triple itself.
\<close>

definition toUndoComparable :: "ClipboardCanvasSnapshot \<Rightarrow> CanvasImageItem list \<times> int \<times> int" where
  "toUndoComparable snapshot = (items snapshot, nextZIndex snapshot, placementOffsetIndex snapshot)"

definition isUndoTargetChanged :: "ClipboardCanvasSnapshot \<Rightarrow> ClipboardCanvasSnapshot \<Rightarrow> bool" where
  "isUndoTargetChanged beforeSnapshot afterSnapshot =
    (toUndoComparable beforeSnapshot \<noteq> toUndoComparable afterSnapshot)"

definition pushUndo :: "ClipboardCanvasSnapshot \<Rightarrow> Component \<Rightarrow> Component" where
  "pushUndo snapshot a =
    (let nextSnapshot =
           \<lparr> items = deepCloneItems (items snapshot), selectedId = selectedId snapshot,
             nextZIndex = nextZIndex snapshot,
             placementOffsetIndex = placementOffsetIndex snapshot \<rparr>;
         a = a\<lparr> undoStack := undoStack a @ [nextSnapshot] \<rparr>
     in if length (undoStack a) > UNDO_LIMIT
        then a\<lparr> undoStack := drop (length (undoStack a) - UNDO_LIMIT) (undoStack a) \<rparr>
        else a)"

definition undo :: "Component \<Rightarrow> Component" where
  "undo a =
    (if \<not> canUndo a \<or> interaction a \<noteq> None then a
     else case undoStack a of
        [] \<Rightarrow> a
      | _ # _ \<Rightarrow>
         let snapshot = last (undoStack a);
             a = a\<lparr> undoStack := butlast (undoStack a) \<rparr>;
             a = applySnapshot snapshot a
         in a\<lparr> noticeMessage := NoticeUndone \<rparr>)"

definition removeSelectedItem :: "bool \<Rightarrow> Component \<Rightarrow> Component" where
  "removeSelectedItem trackUndo a =
    (if \<not> truthy (selectedId (state a)) then a
     else
      let beforeSnapshot = createSnapshot a;
          (s, removed) = removeItem (the (selectedId (state a))) (state a);
          a = a\<lparr> state := s \<rparr>
      in if \<not> removed then a
         else let a = (if trackUndo then pushUndo beforeSnapshot a else a)
              in a\<lparr> noticeMessage := NoticeDeleted \<rparr>)"

subsection \<open>Ingestion\<close>

text \<open>
  What the two awaits of one loop round of \<^verbatim>\<open>addDroppedFiles\<close> give: the file read
  rejects, the conversion to PNG rejects, or there is a PNG data URL with its size.
\<close>

datatype DecodeOutcome = ReadFailed | ConvertFailed | Decoded string real real

record DroppedFile =
  fileType :: string
  decodeOutcome :: DecodeOutcome
  addEnv :: AddEnv

definition startsWith :: "string \<Rightarrow> string \<Rightarrow> bool" where
  "startsWith str p = (take (length p) str = p)"

text \<open>
  \<^verbatim>\<open>addDroppedFiles\<close> is an \<^verbatim>\<open>async\<close> function. It runs from the drop to the first
  \<^verbatim>\<open>await\<close> of its loop (\<open>addDroppedFiles_start\<close>); each time the two awaits of a loop
  round have settled it runs on to the awaits of the next round or, after the last file,
  to its end (\<open>addDroppedFiles_resume\<close>). Between two such runs any other handler can
  run. A \<open>DropTask\<close> holds the local variables of a suspended call: the snapshot taken
  before the loop, the two counters, and the image files not yet handled, the first of
  them being awaited.
\<close>

record DropTask =
  beforeSnapshot :: ClipboardCanvasSnapshot
  successCount :: nat
  failureCount :: nat
  remainingFiles :: "DroppedFile list"

definition addDroppedFiles_start ::
  "DroppedFile list \<Rightarrow> Component \<Rightarrow> Component \<times> DropTask option" where
  "addDroppedFiles_start fileList a =
    (let imageFiles = filter (\<lambda>file. startsWith (fileType file) ''image/'') fileList
     in if length imageFiles = 0 then (a\<lparr> noticeMessage := NoticeDropNoImageFiles \<rparr>, None)
        else (a, Some \<lparr> beforeSnapshot = createSnapshot a, successCount = 0, failureCount = 0,
                       remainingFiles = imageFiles \<rparr>))"

definition addDroppedFiles_resume ::
  "DropTask \<Rightarrow> Component \<Rightarrow> Component \<times> DropTask option" where
  "addDroppedFiles_resume task a =
    (case remainingFiles task of
       [] \<Rightarrow> (a, None)
     | file # files \<Rightarrow>
        let (a, task) =
              (case decodeOutcome file of
                 Decoded url w h \<Rightarrow>
                   (a\<lparr> state := addCanvasItem (addEnv file) url w h SourceDrop (state a) \<rparr>,
                    task\<lparr> successCount := successCount task + 1 \<rparr>)
               | _ \<Rightarrow> (a, task\<lparr> failureCount := failureCount task + 1 \<rparr>))
        in if files \<noteq> [] then (a, Some (task\<lparr> remainingFiles := files \<rparr>))
           else if successCount task = 0
           then (a\<lparr> noticeMessage := NoticeDropNothingAdded \<rparr>, None)
           else
            let a = pushUndo (beforeSnapshot task) a
            in if failureCount task > 0
               then (a\<lparr> noticeMessage :=
                         NoticeDropPartial (successCount task) (failureCount task) \<rparr>, None)
               else (a\<lparr> noticeMessage := NoticeDropAdded (successCount task) \<rparr>, None))"

text \<open>
  The clipboard bridge. A read rejects, finds no image, or returns the base64 text and
  the size of a PNG (\<^verbatim>\<open>mimeType\<close> is the literal \<^verbatim>\<open>"image/png"\<close>).
\<close>

datatype ClipboardReadOutcome = ReadRejected | ReadNull | ReadPayload string real real

definition addImageFromClipboard ::
  "AddEnv \<Rightarrow> string \<Rightarrow> real \<Rightarrow> real \<Rightarrow> ClipboardCanvasState \<Rightarrow> ClipboardCanvasState" where
  "addImageFromClipboard env base64 w h s =
    addCanvasItem env (''data:'' @ ''image/png'' @ '';base64,'' @ base64) w h SourcePaste s"

definition handlePaste :: "bool \<Rightarrow> ClipboardReadOutcome \<Rightarrow> AddEnv \<Rightarrow> Component \<Rightarrow> Component" where
  "handlePaste active readOutcome env a =
    (if \<not> active then a
     else case readOutcome of
        ReadRejected \<Rightarrow> a\<lparr> noticeMessage := NoticePasteFailed \<rparr>
      | ReadNull \<Rightarrow> a\<lparr> noticeMessage := NoticePasteEmpty \<rparr>
      | ReadPayload base64 w h \<Rightarrow>
         let beforeSnapshot = createSnapshot a;
             a = a\<lparr> state := addImageFromClipboard env base64 w h (state a) \<rparr>;
             a = pushUndo beforeSnapshot a
         in a\<lparr> noticeMessage := NoticePasted \<rparr>)"

definition extractBase64 :: "string \<Rightarrow> string option" where
  "extractBase64 url =
    (if CHR '','' \<notin> set url then None
     else Some (tl (dropWhile (\<lambda>c. c \<noteq> CHR '','') url)))"

datatype ClipboardWriteFailureReason = invalid_payload | decode_failed | write_failed

record ClipboardWriteResult =
  ok :: bool
  reason :: "ClipboardWriteFailureReason option"

text \<open>What awaiting \<^verbatim>\<open>window.desktopApi.writeClipboardImage\<close> gives.\<close>

datatype ClipboardWriteOutcome = WriteRejected | WriteResolved ClipboardWriteResult

fun getCopyFailureMessage :: "ClipboardWriteFailureReason option \<Rightarrow> Notice" where
  "getCopyFailureMessage (Some invalid_payload) = NoticeCopyInvalidPayload"
| "getCopyFailureMessage (Some decode_failed) = NoticeCopyDecodeFailed"
| "getCopyFailureMessage (Some write_failed) = NoticeCopyWriteFailed"
| "getCopyFailureMessage None = NoticeCopyFailed"

text \<open>
  \<^verbatim>\<open>copySelectedImage\<close> returns, next to the component, the base64 text it passed to the
  clipboard bridge, or \<open>None\<close> when it did not call the bridge.
\<close>

definition copySelectedImage ::
  "bool \<Rightarrow> ClipboardWriteOutcome \<Rightarrow> Component \<Rightarrow> Component \<times> string option" where
  "copySelectedImage active writeOutcome a =
    (if \<not> active \<or> selectedItem a = None then (a, None)
     else
      let base64 = extractBase64 (dataUrl (the (selectedItem a)))
      in if \<not> truthy base64 then (a\<lparr> noticeMessage := NoticeCopyNoData \<rparr>, None)
         else
          (case writeOutcome of
             WriteRejected \<Rightarrow> a\<lparr> noticeMessage := NoticeCopyFailed \<rparr>
           | WriteResolved result \<Rightarrow>
              if ok result then a\<lparr> noticeMessage := NoticeCopied \<rparr>
              else a\<lparr> noticeMessage := getCopyFailureMessage (reason result) \<rparr>,
           base64))"

subsection \<open>Interaction controller\<close>

record MouseEvent =
  button :: int
  clientX :: real
  clientY :: real

record KeyboardEvent =
  ctrlKey :: bool
  metaKey :: bool
  key :: string

definition stopInteraction :: "bool \<Rightarrow> Component \<Rightarrow> Component" where
  "stopInteraction commitHistory a =
    (let current = interaction a;
         a = a\<lparr> interaction := None \<rparr>
     in case current of
          None \<Rightarrow> a
        | Some cur \<Rightarrow>
           if \<not> commitHistory then a
           else let currentSnapshot = createSnapshot a
                in if isUndoTargetChanged (startSnapshot cur) currentSnapshot
                   then pushUndo (startSnapshot cur) a else a)"

definition handlePointerUp :: "Component \<Rightarrow> Component" where
  "handlePointerUp a = stopInteraction True a"

text \<open>
  \<^verbatim>\<open>handlePointerMove\<close>. The result is \<open>None\<close> where the source would store a geometry of
  non-finite numbers (a corner resize from a start size of zero).
\<close>

definition handlePointerMove :: "MouseEvent \<Rightarrow> Component \<Rightarrow> Component option" where
  "handlePointerMove event a =
    (case interaction a of
       None \<Rightarrow> Some a
     | Some currentInteraction \<Rightarrow>
        (case getItemById (sessionItemId currentInteraction) (state a) of
           None \<Rightarrow> Some (stopInteraction False a)
         | Some item \<Rightarrow>
            let deltaX = clientX event - startClientX currentInteraction;
                deltaY = clientY event - startClientY currentInteraction
            in (case currentInteraction of
                  MoveInteraction _ _ _ _ _ _ \<Rightarrow>
                    let nextX = clamp (startX currentInteraction + deltaX) 0
                                  (CANVAS_WIDTH - width item);
                        nextY = clamp (startY currentInteraction + deltaY) 0
                                  (CANVAS_HEIGHT - height item)
                    in Some (a\<lparr> state :=
                         updateItem (sessionItemId currentInteraction)
                           (\<lambda>target. target\<lparr> posX := Math_round nextX, posY := Math_round nextY \<rparr>)
                           (state a) \<rparr>)
                | ResizeInteraction _ _ _ _ _ _ _ _ _ \<Rightarrow>
                    (case (if isCornerHandle (handle currentInteraction)
                           then computeCornerResize currentInteraction deltaX deltaY
                           else Some (computeEdgeResize currentInteraction deltaX deltaY)) of
                       None \<Rightarrow> None
                     | Some geometry \<Rightarrow>
                        Some (a\<lparr> state :=
                          updateItem (sessionItemId currentInteraction)
                            (\<lambda>target. target\<lparr> posX := geomX geometry, posY := geomY geometry,
                                               width := geomWidth geometry,
                                               height := geomHeight geometry \<rparr>)
                            (state a) \<rparr>)))))"

definition startMove :: "bool \<Rightarrow> MouseEvent \<Rightarrow> string \<Rightarrow> Component \<Rightarrow> Component" where
  "startMove active event iid a =
    (if \<not> active \<or> button event \<noteq> 0 then a
     else case getItemById iid (state a) of
        None \<Rightarrow> a
      | Some item \<Rightarrow>
         let snapshot = createSnapshot a;
             a = a\<lparr> state := selectItem iid (state a) \<rparr>
         in a\<lparr> interaction :=
               Some (MoveInteraction iid (clientX event) (clientY event)
                       (posX item) (posY item) snapshot) \<rparr>)"

definition startResize ::
  "bool \<Rightarrow> MouseEvent \<Rightarrow> string \<Rightarrow> ResizeHandle \<Rightarrow> Component \<Rightarrow> Component" where
  "startResize active event iid h a =
    (if \<not> active \<or> button event \<noteq> 0 then a
     else case getItemById iid (state a) of
        None \<Rightarrow> a
      | Some item \<Rightarrow>
         let snapshot = createSnapshot a;
             a = a\<lparr> state := selectItem iid (state a) \<rparr>
         in a\<lparr> interaction :=
               Some (ResizeInteraction iid h (clientX event) (clientY event)
                       (posX item) (posY item) (width item) (height item) snapshot) \<rparr>)"

definition clearSelection :: "bool \<Rightarrow> MouseEvent \<Rightarrow> Component \<Rightarrow> Component" where
  "clearSelection active event a =
    (if \<not> active \<or> button event \<noteq> 0 then a
     else a\<lparr> state := (state a)\<lparr> selectedId := None \<rparr> \<rparr>)"

text \<open>
  \<^verbatim>\<open>event.key.toLowerCase() === "c"\<close> holds for the keys \<^verbatim>\<open>c\<close> and \<^verbatim>\<open>C\<close> only.
  \<open>textInputFocused\<close> is what \<^verbatim>\<open>isTextInputFocused()\<close> reads from the document.
\<close>

definition lowerCaseIs :: "string \<Rightarrow> char \<Rightarrow> char \<Rightarrow> bool" where
  "lowerCaseIs k lower upper = (k = [lower] \<or> k = [upper])"

definition handleKeyDown ::
  "bool \<Rightarrow> bool \<Rightarrow> KeyboardEvent \<Rightarrow> ClipboardWriteOutcome \<Rightarrow> Component
    \<Rightarrow> Component \<times> string option" where
  "handleKeyDown active textInputFocused event writeOutcome a =
    (if \<not> active \<or> textInputFocused then (a, None)
     else if (ctrlKey event \<or> metaKey event) \<and> lowerCaseIs (key event) CHR ''c'' CHR ''C''
     then (if \<not> truthy (selectedId (state a)) then (a, None)
           else copySelectedImage active writeOutcome a)
     else if (ctrlKey event \<or> metaKey event) \<and> lowerCaseIs (key event) CHR ''z'' CHR ''Z''
     then (if \<not> canUndo a \<or> interaction a \<noteq> None then (a, None) else (undo a, None))
     else if key event = ''Delete''
     then (if \<not> truthy (selectedId (state a)) then (a, None)
           else (removeSelectedItem True a, None))
     else (a, None))"

definition onCanvasDrop ::
  "bool \<Rightarrow> DroppedFile list option \<Rightarrow> Component \<Rightarrow> Component \<times> DropTask option" where
  "onCanvasDrop active files a =
    (let a = a\<lparr> isDragActive := False \<rparr>
     in if \<not> active then (a, None)
        else case files of None \<Rightarrow> (a, None) | Some fileList \<Rightarrow> addDroppedFiles_start fileList a)"

subsection \<open>Events\<close>

datatype Event =
    EvPaste bool ClipboardReadOutcome AddEnv
  | EvDrop bool "DroppedFile list option"
  | EvDropResume DropTask
  | EvKeyDown bool bool KeyboardEvent ClipboardWriteOutcome
  | EvMouseDownItem bool MouseEvent string
  | EvMouseDownHandle bool MouseEvent string ResizeHandle
  | EvMouseDownViewport bool MouseEvent
  | EvMouseMove MouseEvent
  | EvMouseUp
  | EvClickUndo
  | EvClickCopy bool ClipboardWriteOutcome
  | EvDragOver bool
  | EvDragLeave

fun step :: "Event \<Rightarrow> Component \<Rightarrow> Component option" where
  "step (EvPaste active readOutcome env) a = Some (handlePaste active readOutcome env a)"
| "step (EvDrop active files) a = Some (fst (onCanvasDrop active files a))"
| "step (EvDropResume task) a = Some (fst (addDroppedFiles_resume task a))"
| "step (EvKeyDown active focused event writeOutcome) a =
    Some (fst (handleKeyDown active focused event writeOutcome a))"
| "step (EvMouseDownItem active event iid) a = Some (startMove active event iid a)"
| "step (EvMouseDownHandle active event iid h) a = Some (startResize active event iid h a)"
| "step (EvMouseDownViewport active event) a = Some (clearSelection active event a)"
| "step (EvMouseMove event) a = handlePointerMove event a"
| "step EvMouseUp a = Some (handlePointerUp a)"
| "step EvClickUndo a = Some (undo a)"
| "step (EvClickCopy active writeOutcome) a = Some (fst (copySelectedImage active writeOutcome a))"
| "step (EvDragOver active) a = Some (if active then a\<lparr> isDragActive := True \<rparr> else a)"
| "step EvDragLeave a = Some (a\<lparr> isDragActive := False \<rparr>)"

text \<open>Running a list of events from a component; \<open>None\<close> as soon as one step is.\<close>

fun run :: "Event list \<Rightarrow> Component \<Rightarrow> Component option" where
  "run [] a = Some a"
| "run (ev # evs) a = (case step ev a of None \<Rightarrow> None | Some b \<Rightarrow> run evs b)"



text \<open>Concrete inputs for the examples.\<close>

definition env1 :: AddEnv where
  "env1 = \<lparr> viewport = None, randomUUID = ''item-1'', dateNow = 1000 \<rparr>"

definition env2 :: AddEnv where
  "env2 = \<lparr> viewport = None, randomUUID = ''item-2'', dateNow = 2000 \<rparr>"

definition mouseAt :: "real \<Rightarrow> real \<Rightarrow> MouseEvent" where
  "mouseAt x y = \<lparr> button = 0, clientX = x, clientY = y \<rparr>"

text \<open>
  The component after one paste of a 100 by 100 image, and the same after the primary
  button went down on that image (a move session is active).
\<close>

definition pastedOne :: Component where
  "pastedOne = handlePaste True (ReadPayload ''AAAA'' 100 100) env1 initialComponent"

definition item1 :: CanvasImageItem where
  "item1 = \<lparr> itemId = ''item-1'', source = SourcePaste, dataUrl = ''data:image/png;base64,AAAA'',
            naturalWidth = 100, naturalHeight = 100, posX = 950, posY = 950,
            width = 100, height = 100, zIndex = 1, createdAt = 1000 \<rparr>"

definition state1 :: ClipboardCanvasState where
  "state1 = \<lparr> items = [item1], selectedId = Some ''item-1'', nextZIndex = 2,
             placementOffsetIndex = 1 \<rparr>"

definition draggingOne :: Component where
  "draggingOne = startMove True (mouseAt 0 0) ''item-1'' pastedOne"

text \<open>The dragged component after the pointer moved by \<open>(30, 40)\<close>.\<close>

definition movedOne :: Component where
  "movedOne = draggingOne\<lparr> state := state1\<lparr> items := [item1\<lparr> posX := 980, posY := 990 \<rparr>] \<rparr> \<rparr>"






text \<open>A canvas at the cap: fifty items, the oldest one selected.\<close>

definition numberedItem :: "nat \<Rightarrow> CanvasImageItem" where
  "numberedItem k =
    \<lparr> itemId = replicate k CHR ''i'', source = SourceDrop,
      dataUrl = ''data:image/png;base64,AAAA'', naturalWidth = 100, naturalHeight = 100,
      posX = 0, posY = 0, width = 100, height = 100, zIndex = int k, createdAt = int k \<rparr>"

definition fullState :: ClipboardCanvasState where
  "fullState = \<lparr> items = map numberedItem [1..<51], selectedId = Some ''i'',
                 nextZIndex = 51, placementOffsetIndex = 0 \<rparr>"

subsection \<open>Predicates of the claims\<close>




definition geometry_ok :: "real \<Rightarrow> real \<Rightarrow> real \<Rightarrow> real \<Rightarrow> bool" where
  "geometry_ok x y w h =
    (0 \<le> x \<and> 0 \<le> y \<and> x + w \<le> CANVAS_WIDTH \<and> y + h \<le> CANVAS_HEIGHT \<and>
     MIN_SIZE \<le> w \<and> MIN_SIZE \<le> h)"

text \<open>The reals that are doubles: rounding leaves them as they are.\<close>

definition isDouble :: "real \<Rightarrow> bool" where
  "isDouble x = (toDouble x = x)"

subsection \<open>Basic facts\<close>

lemma Math_round_of_int: "Math_round (of_int k) = of_int k"
  by (simp add: Math_round_def)

subsection \<open>Rounding and clamping\<close>

lemma Math_round_bounds: "\<bar>Math_round v - v\<bar> \<le> 1 / 2"
  unfolding Math_round_def by linarith

lemma Math_round_mono: "a \<le> b \<Longrightarrow> Math_round a \<le> Math_round b"
  unfolding Math_round_def by (simp add: floor_mono)

lemma Math_round_ge_int: "of_int k \<le> v \<Longrightarrow> of_int k \<le> Math_round v"
  unfolding Math_round_def by (simp add: le_floor_iff)

lemma Math_round_le_int: "v \<le> of_int k \<Longrightarrow> Math_round v \<le> of_int k"
  unfolding Math_round_def by (simp add: floor_le_iff)

subsection \<open>Snapshots are values; the example components\<close>

lemma deepCloneItems_id [simp]: "deepCloneItems its = its"
  by (simp add: deepCloneItems_def)

lemma createSnapshot_state [simp]: "createSnapshot a = state a"
  by (simp add: createSnapshot_def)

lemma applySnapshot_state [simp]: "applySnapshot snapshot a = a\<lparr> state := snapshot \<rparr>"
  by (simp add: applySnapshot_def)

lemma pastedOne_eq:
  "pastedOne = \<lparr> state = state1, undoStack = [initialState],
     noticeMessage = NoticePasted, isDragActive = False, interaction = None \<rparr>"
  by code_simp

lemma draggingOne_eq:
  "draggingOne = \<lparr> state = state1, undoStack = [initialState],
     noticeMessage = NoticePasted, isDragActive = False,
     interaction = Some (MoveInteraction ''item-1'' 0 0 950 950 state1) \<rparr>"
  unfolding draggingOne_def pastedOne_eq by code_simp

subsection \<open>Copy\<close>

lemma copy_notice_only:
  "\<exists>notice. fst (copySelectedImage active writeOutcome a) = a\<lparr> noticeMessage := notice \<rparr>"
proof (cases "fst (copySelectedImage active writeOutcome a) = a")
  case True
  then have "fst (copySelectedImage active writeOutcome a) = a\<lparr> noticeMessage := noticeMessage a \<rparr>"
    by simp
  then show ?thesis ..
next
  case False
  then show ?thesis
    by (auto simp: copySelectedImage_def Let_def split: ClipboardWriteOutcome.splits if_splits)
qed

text \<open>
  Claim C9. \<^verbatim>\<open>copySelectedImage\<close> returns the component it was given with at most the notice
  replaced: the canvas state (items, selection, z-index counter, placement counter), the
  undo stack and the session are the same, whatever the clipboard bridge answers
  (resolved with \<open>ok\<close>, resolved with any failure reason or with none, or rejected).
\<close>

theorem copy_changes_only_the_notice:
  "(\<exists>notice. fst (copySelectedImage active writeOutcome a) = a\<lparr> noticeMessage := notice \<rparr>)
   \<and> state (fst (copySelectedImage active writeOutcome a)) = state a
   \<and> undoStack (fst (copySelectedImage active writeOutcome a)) = undoStack a
   \<and> interaction (fst (copySelectedImage active writeOutcome a)) = interaction a"
proof -
  obtain notice where eq: "fst (copySelectedImage active writeOutcome a) = a\<lparr> noticeMessage := notice \<rparr>"
    using copy_notice_only by blast
  have "state (a\<lparr> noticeMessage := notice \<rparr>) = state a"
    "undoStack (a\<lparr> noticeMessage := notice \<rparr>) = undoStack a"
    "interaction (a\<lparr> noticeMessage := notice \<rparr>) = interaction a"
    by simp_all
  then show ?thesis
    unfolding eq by blast
qed

lemma selectedItem_pastedOne: "selectedItem pastedOne = Some item1"
  unfolding pastedOne_eq by code_simp

lemma extractBase64_item1: "extractBase64 (dataUrl item1) = Some ''AAAA''"
  by code_simp

theorem copy_changes_only_the_notice_witness:
  "noticeMessage (fst (copySelectedImage True
      (WriteResolved \<lparr> ok = False, reason = Some write_failed \<rparr>) pastedOne)) = NoticeCopyWriteFailed
   \<and> state (fst (copySelectedImage True
        (WriteResolved \<lparr> ok = False, reason = Some write_failed \<rparr>) pastedOne)) = state pastedOne
   \<and> undoStack (fst (copySelectedImage True
        (WriteResolved \<lparr> ok = False, reason = Some write_failed \<rparr>) pastedOne)) = [initialState]"
proof -
  note t = copy_changes_only_the_notice[of True
      "WriteResolved \<lparr> ok = False, reason = Some write_failed \<rparr>" pastedOne]
  have n: "noticeMessage (fst (copySelectedImage True
      (WriteResolved \<lparr> ok = False, reason = Some write_failed \<rparr>) pastedOne)) = NoticeCopyWriteFailed"
    unfolding pastedOne_eq by code_simp
  have u: "undoStack pastedOne = [initialState]"
    unfolding pastedOne_eq by code_simp
  show ?thesis
    using n t[THEN conjunct2, THEN conjunct1] t[THEN conjunct2, THEN conjunct2, THEN conjunct1] u
    by (intro conjI) (simp_all only:)
qed

subsection \<open>Copy shortcut during a session\<close>

text \<open>
  Claim C6 says that the copy shortcut does nothing while a session is active. The source
  guards only the undo shortcut with the session; the copy branch of \<^verbatim>\<open>handleKeyDown\<close> and
  \<^verbatim>\<open>copySelectedImage\<close> never read \<^verbatim>\<open>interaction\<close>. After a paste and a press on the
  pasted image a move session is active, and Ctrl+C passes the payload \<^verbatim>\<open>AAAA\<close> to the
  clipboard bridge and replaces the notice.
\<close>

theorem copy_shortcut_during_session_counterexample:
  "run [EvPaste True (ReadPayload ''AAAA'' 100 100) env1,
        EvMouseDownItem True (mouseAt 0 0) ''item-1''] initialComponent = Some draggingOne
   \<and> interaction draggingOne = Some (MoveInteraction ''item-1'' 0 0 950 950 state1)
   \<and> selectedId (state draggingOne) = Some ''item-1''
   \<and> handleKeyDown True False \<lparr> ctrlKey = True, metaKey = False, key = ''c'' \<rparr>
         (WriteResolved \<lparr> ok = True, reason = None \<rparr>) draggingOne
       = (draggingOne\<lparr> noticeMessage := NoticeCopied \<rparr>, Some ''AAAA'')
   \<and> noticeMessage draggingOne = NoticePasted"
  unfolding draggingOne_eq by code_simp

lemma selectedItem_selectedId:
  assumes "selectedItem a = Some sel"
  shows "selectedId (state a) = Some (itemId sel)"
  using assms unfolding selectedItem_def by (auto simp: find_Some_iff)

text \<open>
  Claim C6, as the source has it. While a session is active, in the active tab and with
  no text input focused, Ctrl+C or Cmd+C with a selected item (whose identifier is a
  non-empty string, as \<^verbatim>\<open>crypto.randomUUID\<close> gives) is not suppressed. If the data URL of
  the item has a non-empty payload, the payload is passed to the clipboard bridge and the
  notice becomes the message of the bridge's answer. If the data URL has no payload or an
  empty one, the bridge is not called and the notice says that no copy data could be
  made. Nothing else of the component changes in either case: canvas state, undo stack
  and session are those of before. The undo shortcut and \<^verbatim>\<open>undo\<close> do nothing while a session
  is active.
\<close>

theorem copy_shortcut_during_session:
  assumes session: "interaction a = Some cur"
    and modifier: "ctrlKey ev \<or> metaKey ev"
    and keyc: "key ev = ''c'' \<or> key ev = ''C''"
    and sel: "selectedItem a = Some sel"
    and uuid: "itemId sel \<noteq> []"
  shows "(\<forall>b64. extractBase64 (dataUrl sel) = Some b64 \<and> b64 \<noteq> [] \<longrightarrow>
            handleKeyDown True False ev writeOutcome a =
              (a\<lparr> noticeMessage :=
                   (case writeOutcome of
                      WriteRejected \<Rightarrow> NoticeCopyFailed
                    | WriteResolved result \<Rightarrow>
                       if ok result then NoticeCopied else getCopyFailureMessage (reason result)) \<rparr>,
               Some b64))
      \<and> (extractBase64 (dataUrl sel) = None \<or> extractBase64 (dataUrl sel) = Some [] \<longrightarrow>
            handleKeyDown True False ev writeOutcome a = (a\<lparr> noticeMessage := NoticeCopyNoData \<rparr>, None))
      \<and> (\<forall>undoKey outcome. (ctrlKey undoKey \<or> metaKey undoKey)
              \<and> (key undoKey = ''z'' \<or> key undoKey = ''Z'') \<longrightarrow>
            handleKeyDown True False undoKey outcome a = (a, None))
      \<and> undo a = a"
proof -
  have t: "truthy (selectedId (state a))"
    using selectedItem_selectedId[OF sel] uuid by simp
  have copy: "handleKeyDown True False ev writeOutcome a = copySelectedImage True writeOutcome a"
    using modifier keyc t by (auto simp: handleKeyDown_def lowerCaseIs_def)
  have c1: "\<forall>b64. extractBase64 (dataUrl sel) = Some b64 \<and> b64 \<noteq> [] \<longrightarrow>
            handleKeyDown True False ev writeOutcome a =
              (a\<lparr> noticeMessage :=
                   (case writeOutcome of
                      WriteRejected \<Rightarrow> NoticeCopyFailed
                    | WriteResolved result \<Rightarrow>
                       if ok result then NoticeCopied else getCopyFailureMessage (reason result)) \<rparr>,
               Some b64)"
    unfolding copy using sel
    by (simp add: copySelectedImage_def split: ClipboardWriteOutcome.split)
  have c2: "extractBase64 (dataUrl sel) = None \<or> extractBase64 (dataUrl sel) = Some [] \<longrightarrow>
            handleKeyDown True False ev writeOutcome a = (a\<lparr> noticeMessage := NoticeCopyNoData \<rparr>, None)"
    unfolding copy using sel by (auto simp: copySelectedImage_def)
  have c3: "\<forall>undoKey outcome. (ctrlKey undoKey \<or> metaKey undoKey)
              \<and> (key undoKey = ''z'' \<or> key undoKey = ''Z'') \<longrightarrow>
            handleKeyDown True False undoKey outcome a = (a, None)"
    using session by (auto simp: handleKeyDown_def lowerCaseIs_def)
  have c4: "undo a = a" using session by (simp add: undo_def)
  show ?thesis by (intro conjI) (rule c1 c2 c3 c4)+
qed

theorem copy_shortcut_during_session_witness:
  "interaction draggingOne = Some (MoveInteraction ''item-1'' 0 0 950 950 state1)
   \<and> selectedItem draggingOne = Some item1 \<and> itemId item1 \<noteq> []
   \<and> extractBase64 (dataUrl item1) = Some ''AAAA''
   \<and> handleKeyDown True False \<lparr> ctrlKey = False, metaKey = True, key = ''C'' \<rparr>
         (WriteResolved \<lparr> ok = False, reason = Some decode_failed \<rparr>) draggingOne
       = (draggingOne\<lparr> noticeMessage := NoticeCopyDecodeFailed \<rparr>, Some ''AAAA'')
   \<and> handleKeyDown True False \<lparr> ctrlKey = True, metaKey = False, key = ''z'' \<rparr>
         WriteRejected draggingOne = (draggingOne, None)
   \<and> canUndo draggingOne
   \<and> undo draggingOne = draggingOne"
proof -
  have h1: "interaction draggingOne = Some (MoveInteraction ''item-1'' 0 0 950 950 state1)"
    unfolding draggingOne_eq by code_simp
  have h2: "ctrlKey \<lparr> ctrlKey = False, metaKey = True, key = ''C'' \<rparr>
      \<or> metaKey \<lparr> ctrlKey = False, metaKey = True, key = ''C'' \<rparr>" by simp
  have h3: "key \<lparr> ctrlKey = False, metaKey = True, key = ''C'' \<rparr> = ''c''
      \<or> key \<lparr> ctrlKey = False, metaKey = True, key = ''C'' \<rparr> = ''C''" by simp
  have h4: "selectedItem draggingOne = Some item1" unfolding draggingOne_eq by code_simp
  have h5: "itemId item1 \<noteq> []" by code_simp
  have h6: "extractBase64 (dataUrl item1) = Some ''AAAA''" by code_simp
  have h7: "canUndo draggingOne" unfolding draggingOne_eq by code_simp
  note inst = copy_shortcut_during_session[OF h1 h2 h3 h4 h5,
        of "WriteResolved \<lparr> ok = False, reason = Some decode_failed \<rparr>"]
  have c1: "handleKeyDown True False \<lparr> ctrlKey = False, metaKey = True, key = ''C'' \<rparr>
         (WriteResolved \<lparr> ok = False, reason = Some decode_failed \<rparr>) draggingOne
       = (draggingOne\<lparr> noticeMessage := NoticeCopyDecodeFailed \<rparr>, Some ''AAAA'')"
    using inst[THEN conjunct1, THEN spec, of "''AAAA''"] h6 by simp
  have c3: "handleKeyDown True False \<lparr> ctrlKey = True, metaKey = False, key = ''z'' \<rparr>
         WriteRejected draggingOne = (draggingOne, None)"
    using inst[THEN conjunct2, THEN conjunct2, THEN conjunct1, THEN spec, THEN spec,
        of "\<lparr> ctrlKey = True, metaKey = False, key = ''z'' \<rparr>" WriteRejected] by simp
  have c4: "undo draggingOne = draggingOne"
    using inst[THEN conjunct2, THEN conjunct2, THEN conjunct2] .
  show ?thesis by (intro conjI) (rule h1 h4 h5 h6 c1 c3 h7 c4)+
qed

subsection \<open>Selecting raises to the front\<close>

lemma currentMaxZ_ge_start: "m \<le> foldl (\<lambda>maxZ item. max maxZ (zIndex item)) m xs"
proof (induction xs arbitrary: m)
  case Nil
  show ?case by simp
next
  case (Cons x xs)
  have "m \<le> max m (zIndex x)" by simp
  also have "\<dots> \<le> foldl (\<lambda>maxZ item. max maxZ (zIndex item)) (max m (zIndex x)) xs"
    by (rule Cons.IH)
  finally show ?case by simp
qed

lemma currentMaxZ_ge_item:
  "it \<in> set xs \<Longrightarrow> zIndex it \<le> foldl (\<lambda>maxZ item. max maxZ (zIndex item)) m xs"
proof (induction xs arbitrary: m)
  case Nil
  then show ?case by simp
next
  case (Cons x xs)
  show ?case
  proof (cases "it = x")
    case True
    have "zIndex x \<le> max m (zIndex x)" by simp
    also have "\<dots> \<le> foldl (\<lambda>maxZ item. max maxZ (zIndex item)) (max m (zIndex x)) xs"
      by (rule currentMaxZ_ge_start)
    finally show ?thesis using True by simp
  next
    case False
    then have "it \<in> set xs" using Cons.prems by simp
    then show ?thesis using Cons.IH by simp
  qed
qed

lemma currentMaxZ_le:
  "m \<le> b \<Longrightarrow> \<forall>it\<in>set xs. zIndex it \<le> b
    \<Longrightarrow> foldl (\<lambda>maxZ item. max maxZ (zIndex item)) m xs \<le> b"
  by (induction xs arbitrary: m) simp_all

lemma getItemById_Some:
  assumes "getItemById iid s = Some cur"
  shows "cur \<in> set (items s)" and "itemId cur = iid"
  using assms unfolding getItemById_def by (auto simp: find_Some_iff)

lemma selectItem_topmost:
  assumes cur: "getItemById iid s = Some cur"
    and nonneg: "0 \<le> zIndex cur"
    and top: "\<forall>it\<in>set (items s). zIndex it \<le> zIndex cur"
  shows "selectItem iid s = s\<lparr> selectedId := Some iid \<rparr>"
proof -
  have "foldl (\<lambda>maxZ item. max maxZ (zIndex item)) 0 (items s) \<le> zIndex cur"
    by (rule currentMaxZ_le[OF nonneg top])
  moreover have "getItemById iid (s\<lparr> selectedId := Some iid \<rparr>) = Some cur"
    using cur by (simp add: getItemById_def)
  ultimately show ?thesis
    by (simp add: selectItem_def bringToFront_def)
qed

lemma selectItem_not_topmost:
  assumes cur: "getItemById iid s = Some cur"
    and above: "it \<in> set (items s)" "zIndex cur < zIndex it"
  shows "selectItem iid s =
    s\<lparr> selectedId := Some iid, nextZIndex := nextZIndex s + 1,
       items := map (\<lambda>item. if itemId item = iid then item\<lparr> zIndex := nextZIndex s \<rparr> else item)
                  (items s) \<rparr>"
proof -
  have "zIndex it \<le> foldl (\<lambda>maxZ item. max maxZ (zIndex item)) 0 (items s)"
    by (rule currentMaxZ_ge_item[OF above(1)])
  then have "\<not> foldl (\<lambda>maxZ item. max maxZ (zIndex item)) 0 (items s) \<le> zIndex cur"
    using above(2) by simp
  moreover have "getItemById iid (s\<lparr> selectedId := Some iid \<rparr>) = Some cur"
    using cur by (simp add: getItemById_def)
  ultimately show ?thesis
    by (simp add: selectItem_def bringToFront_def updateItem_def Let_def)
qed

subsection \<open>Adding an item and the cap\<close>

lemma resolveInitialPlacement_frame:
  "items (snd (resolveInitialPlacement vp w h s)) = items s"
  "selectedId (snd (resolveInitialPlacement vp w h s)) = selectedId s"
  "nextZIndex (snd (resolveInitialPlacement vp w h s)) = nextZIndex s"
  by (simp_all add: resolveInitialPlacement_def Let_def case_prod_beta)

lemma createCanvasItem_fields:
  "itemId (fst (createCanvasItem env url natW natH src s)) = randomUUID env"
  "createdAt (fst (createCanvasItem env url natW natH src s)) = dateNow env"
  "zIndex (fst (createCanvasItem env url natW natH src s)) = nextZIndex s"
  "width (fst (createCanvasItem env url natW natH src s)) = fst (normalizeInitialSize natW natH)"
  "height (fst (createCanvasItem env url natW natH src s)) = snd (normalizeInitialSize natW natH)"
  "posX (fst (createCanvasItem env url natW natH src s)) =
     fst (fst (resolveInitialPlacement (viewport env) (fst (normalizeInitialSize natW natH))
       (snd (normalizeInitialSize natW natH)) s))"
  "posY (fst (createCanvasItem env url natW natH src s)) =
     snd (fst (resolveInitialPlacement (viewport env) (fst (normalizeInitialSize natW natH))
       (snd (normalizeInitialSize natW natH)) s))"
  by (simp_all add: createCanvasItem_def Let_def case_prod_beta resolveInitialPlacement_frame)

lemma createCanvasItem_frame:
  "items (snd (createCanvasItem env url natW natH src s)) = items s"
  "selectedId (snd (createCanvasItem env url natW natH src s)) = selectedId s"
  "nextZIndex (snd (createCanvasItem env url natW natH src s)) = nextZIndex s + 1"
  "placementOffsetIndex (snd (createCanvasItem env url natW natH src s)) =
     placementOffsetIndex (snd (resolveInitialPlacement (viewport env)
       (fst (normalizeInitialSize natW natH)) (snd (normalizeInitialSize natW natH)) s))"
  by (simp_all add: createCanvasItem_def Let_def case_prod_beta resolveInitialPlacement_frame)

text \<open>The state of \<^verbatim>\<open>addCanvasItem\<close> just before the cap is enforced.\<close>

lemma addCanvasItem_unfold:
  "addCanvasItem env url natW natH src s =
    enforceImageLimit
      ((snd (createCanvasItem env url natW natH src s))
        \<lparr> items := items s @ [fst (createCanvasItem env url natW natH src s)],
          selectedId := Some (randomUUID env) \<rparr>)"
  by (simp add: addCanvasItem_def Let_def case_prod_beta createCanvasItem_frame
      createCanvasItem_fields)

lemma enforceImageLimit_below_cap:
  "length (items s) \<le> 50 \<Longrightarrow> enforceImageLimit s = s"
  by (simp add: enforceImageLimit_def)

lemma hd_sort_key_min:
  assumes "xs \<noteq> []"
  shows "hd (sort_key f xs) \<in> set xs" and "\<forall>x\<in>set xs. f (hd (sort_key f xs)) \<le> f x"
proof -
  have ne: "sort_key f xs \<noteq> []" using assms by (metis length_sort length_0_conv)
  then obtain y ys where ys: "sort_key f xs = y # ys" by (cases "sort_key f xs") auto
  have "y \<in> set (sort_key f xs)" using ys by simp
  then have "y \<in> set xs" by (simp only: set_sort)
  then show "hd (sort_key f xs) \<in> set xs" using ys by simp
  have "sorted (map f (y # ys))" using sorted_sort_key[of f xs] ys by simp
  then have "\<forall>x\<in>set (y # ys). f y \<le> f x" by auto
  then show "\<forall>x\<in>set xs. f (hd (sort_key f xs)) \<le> f x"
    using ys by (metis list.sel(1) set_sort)
qed

lemma take_one_hd: "ys \<noteq> [] \<Longrightarrow> take (Suc 0) ys = [hd ys]"
  by (cases ys) simp_all

lemma filter_other_ids:
  assumes "distinct (map itemId xs)" and "v \<in> set xs"
  shows "filter (\<lambda>item. itemId item \<noteq> itemId v) xs = remove1 v xs"
  using assms
proof (induction xs)
  case Nil
  then show ?case by simp
next
  case (Cons x xs)
  show ?case
  proof (cases "x = v")
    case True
    have "\<forall>y\<in>set xs. itemId y \<noteq> itemId v"
      using Cons.prems(1) True by (auto simp: image_iff)
    then have "filter (\<lambda>item. itemId item \<noteq> itemId v) xs = xs"
      by (simp add: filter_id_conv)
    then show ?thesis using True by simp
  next
    case False
    then have "v \<in> set xs" using Cons.prems(2) by simp
    moreover have "itemId x \<noteq> itemId v"
      using Cons.prems(1) \<open>v \<in> set xs\<close> by auto
    ultimately show ?thesis using Cons False by simp
  qed
qed

text \<open>Enforcing the cap on 51 items with distinct identifiers.\<close>

lemma enforceImageLimit_one_over:
  assumes len: "length (items s) = 51"
    and dist: "distinct (map itemId (items s))"
  shows "enforceImageLimit s =
    s\<lparr> items := remove1 (hd (sort_key createdAt (items s))) (items s),
       selectedId := (if truthy (selectedId s)
                        \<and> the (selectedId s) = itemId (hd (sort_key createdAt (items s)))
                      then None else selectedId s) \<rparr>"
proof -
  have ne: "items s \<noteq> []" using len by auto
  then have sne: "sort_key createdAt (items s) \<noteq> []"
    by (metis length_sort length_0_conv)
  have v: "hd (sort_key createdAt (items s)) \<in> set (items s)"
    by (rule hd_sort_key_min(1)[OF ne])
  have ids: "map itemId (take (Suc 0) (sort_key createdAt (items s)))
      = [itemId (hd (sort_key createdAt (items s)))]"
    using take_one_hd[OF sne] by simp
  have flt: "filter (\<lambda>item. itemId item \<notin> set [itemId (hd (sort_key createdAt (items s)))])
      (items s) = remove1 (hd (sort_key createdAt (items s))) (items s)"
    using filter_other_ids[OF dist v] by simp
  have over: "51 - MAX_IMAGES = Suc 0" "\<not> (51::nat) \<le> MAX_IMAGES" by simp_all
  show ?thesis
    unfolding enforceImageLimit_def Let_def len over ids flt
    by simp
qed

lemma hd_insort_key:
  "xs \<noteq> [] \<Longrightarrow> hd (insort_key f y xs) = (if f y \<le> f (hd xs) then y else hd xs)"
  by (cases xs) simp_all

lemma foldr_insort_ne: "foldr (insort_key f) xs [x] \<noteq> []"
  by (induction xs) simp_all

text \<open>The stable sort puts the last element first only when its key is the strictly smallest.\<close>

lemma hd_sort_key_snoc:
  assumes "x \<notin> set xs"
  shows "hd (sort_key f (xs @ [x])) = x \<longleftrightarrow> (\<forall>y\<in>set xs. f x < f y)"
proof -
  have "hd (foldr (insort_key f) xs [x]) = x \<longleftrightarrow> (\<forall>y\<in>set xs. f x < f y)"
    using assms
  proof (induction xs)
    case Nil
    then show ?case by simp
  next
    case (Cons y ys)
    let ?L = "foldr (insort_key f) ys [x]"
    have ih: "hd ?L = x \<longleftrightarrow> (\<forall>y\<in>set ys. f x < f y)" using Cons by simp
    have ne: "?L \<noteq> []" by (rule foldr_insort_ne)
    have yx: "y \<noteq> x" using Cons.prems by auto
    have hdL: "hd ?L \<in> set ys \<union> {x}"
    proof -
      have "hd ?L \<in> set ?L" using ne by simp
      moreover have "set ?L = set ys \<union> {x}"
        by (induction ys) (auto simp: set_insort_key)
      ultimately show ?thesis by simp
    qed
    show ?case
    proof (cases "f y \<le> f (hd ?L)")
      case True
      then have h: "hd (foldr (insort_key f) (y # ys) [x]) = y"
        using ne by (simp add: hd_insort_key)
      have "\<not> (\<forall>z\<in>set (y # ys). f x < f z)"
      proof (cases "hd ?L = x")
        case True
        then show ?thesis using \<open>f y \<le> f (hd ?L)\<close> by auto
      next
        case False
        then show ?thesis using ih by auto
      qed
      then show ?thesis using h yx by simp
    next
      case False
      then have h: "hd (foldr (insort_key f) (y # ys) [x]) = hd ?L"
        using ne by (simp add: hd_insort_key)
      show ?thesis
      proof (cases "hd ?L = x")
        case True
        then show ?thesis using h ih False by auto
      next
        case False
        then show ?thesis using h ih by auto
      qed
    qed
  qed
  then show ?thesis by (simp add: sort_key_def)
qed


text \<open>
  Adding to a canvas at the cap, with the item that is removed named: the first item of
  the 51 in the stable order by creation timestamp.
\<close>

lemma addCanvasItem_at_cap:
  assumes full: "length (items s) = 50"
    and dist: "distinct (map itemId (items s))"
    and fresh: "randomUUID env \<notin> itemId ` set (items s)"
    and nonempty: "randomUUID env \<noteq> []"
    and new: "new = fst (createCanvasItem env url natW natH src s)"
    and victim: "victim = hd (sort_key createdAt (items s @ [new]))"
  shows "items (addCanvasItem env url natW natH src s) = remove1 victim (items s @ [new])"
    and "selectedId (addCanvasItem env url natW natH src s)
          = (if victim = new then None else Some (randomUUID env))"
    and "victim \<in> set (items s @ [new])"
    and "distinct (items s @ [new])"
proof -
  define mid where "mid = (snd (createCanvasItem env url natW natH src s))
        \<lparr> items := items s @ [new], selectedId := Some (randomUUID env) \<rparr>"
  have newid: "itemId new = randomUUID env"
    by (simp add: new createCanvasItem_fields)
  have mid_items: "items mid = items s @ [new]" and mid_sel: "selectedId mid = Some (randomUUID env)"
    by (simp_all add: mid_def)
  have add: "addCanvasItem env url natW natH src s = enforceImageLimit mid"
    by (simp add: addCanvasItem_unfold mid_def new)
  have len: "length (items mid) = 51" using full mid_items by simp
  have dist': "distinct (map itemId (items mid))"
    using dist fresh by (simp add: mid_items newid)
  have ne: "items mid \<noteq> []" using len by auto
  have v_in: "victim \<in> set (items mid)"
    unfolding victim mid_items[symmetric] by (rule hd_sort_key_min(1)[OF ne])
  have enf: "enforceImageLimit mid =
      mid\<lparr> items := remove1 victim (items mid),
           selectedId := (if truthy (selectedId mid) \<and> the (selectedId mid) = itemId victim
                          then None else selectedId mid) \<rparr>"
    unfolding victim mid_items[symmetric] by (rule enforceImageLimit_one_over[OF len dist'])
  have truthy: "truthy (selectedId mid)"
    using nonempty by (simp add: mid_sel)
  have new_in: "new \<in> set (items mid)" by (simp add: mid_items)
  have inj: "inj_on itemId (set (items mid))" using dist' by (simp add: distinct_map)
  have same: "randomUUID env = itemId victim \<longleftrightarrow> victim = new"
    using inj_onD[OF inj, of victim new] v_in new_in newid by auto
  show "items (addCanvasItem env url natW natH src s) = remove1 victim (items s @ [new])"
    by (simp add: add enf mid_items)
  show "selectedId (addCanvasItem env url natW natH src s)
          = (if victim = new then None else Some (randomUUID env))"
    using truthy same by (simp add: add enf mid_sel)
  show "victim \<in> set (items s @ [new])" using v_in by (simp add: mid_items)
  have "distinct (items mid)" using dist' by (simp add: distinct_map)
  then show "distinct (items s @ [new])" by (simp only: mid_items)
qed

lemma numberedItem_ids:
  "map itemId (items fullState) = map (\<lambda>k. replicate k CHR ''i'') [1..<51]"
  by (simp add: fullState_def numberedItem_def comp_def)

lemma oldest_of_fullState:
  assumes v: "v \<in> set (items fullState @ [n])"
    and least: "\<forall>item\<in>set (items fullState @ [n]). createdAt v \<le> createdAt item"
    and later: "1 < createdAt n"
  shows "v = numberedItem 1"
proof -
  have one: "numberedItem 1 \<in> set (items fullState @ [n])" by (simp add: fullState_def)
  then have le: "createdAt v \<le> 1" using least by (auto simp: numberedItem_def)
  then have "v \<noteq> n" using later by auto
  then obtain k where k: "v = numberedItem k" "1 \<le> k" using v by (auto simp: fullState_def)
  then have "int k \<le> 1" using le by (simp add: numberedItem_def)
  then have "k = 1" using k(2) by simp
  then show ?thesis using k(1) by simp
qed

lemma fullState_cap:
  "length (items fullState) = 50"
  "distinct (map itemId (items fullState))"
  "''item-1'' \<notin> itemId ` set (items fullState)"
proof -
  show "length (items fullState) = 50" by (simp add: fullState_def)
  have "inj_on (\<lambda>k. replicate k CHR ''i'') (set [1..<51])"
    by (rule inj_onI) (metis length_replicate)
  then show "distinct (map itemId (items fullState))"
    unfolding numberedItem_ids by (simp add: distinct_map)
  have "\<forall>k. ''item-1'' \<noteq> replicate k CHR ''i''"
  proof
    fix k
    have "CHR ''t'' \<in> set ''item-1''" by simp
    moreover have "CHR ''t'' \<notin> set (replicate k CHR ''i'')" by auto
    ultimately show "''item-1'' \<noteq> replicate k CHR ''i''" by metis
  qed
  then have "''item-1'' \<notin> set (map itemId (items fullState))"
    unfolding numberedItem_ids by auto
  then show "''item-1'' \<notin> itemId ` set (items fullState)" by simp
qed

text \<open>
  Claim C3, which says that the add to a full canvas clears the selection if and only if
  the removed item was the selected one. \<^verbatim>\<open>addCanvasItem\<close> selects the new item before it
  enforces the cap, so the item selected before the add is never the selected one when
  the cap is enforced. In \<open>fullState\<close> the oldest item is selected. The add removes it, and
  the selection is not cleared: it is the new item.
\<close>

theorem add_to_full_canvas_counterexample:
  "length (items fullState) = 50
   \<and> selectedId fullState = Some (itemId (numberedItem 1))
   \<and> numberedItem 1 \<in> set (items fullState)
   \<and> numberedItem 1 \<notin> set (items (addCanvasItem env1 ''u'' 100 100 SourceDrop fullState))
   \<and> length (items (addCanvasItem env1 ''u'' 100 100 SourceDrop fullState)) = 50
   \<and> selectedId (addCanvasItem env1 ''u'' 100 100 SourceDrop fullState) = Some ''item-1''"
proof -
  define new where "new = fst (createCanvasItem env1 ''u'' 100 100 SourceDrop fullState)"
  define victim where "victim = hd (sort_key createdAt (items fullState @ [new]))"
  have h3: "randomUUID env1 \<notin> itemId ` set (items fullState)"
    using fullState_cap(3) by (simp add: env1_def)
  have h4: "randomUUID env1 \<noteq> []" by (simp add: env1_def)
  note cap = addCanvasItem_at_cap[OF fullState_cap(1,2) h3 h4 new_def victim_def]
  have newf: "createdAt new = 1000" "itemId new = ''item-1''"
    by (simp_all add: new_def createCanvasItem_fields env1_def)
  have ne: "items fullState @ [new] \<noteq> []" by simp
  have "victim = numberedItem 1"
    using hd_sort_key_min[OF ne, of createdAt] newf(1)
    unfolding victim_def[symmetric] by (intro oldest_of_fullState[of _ new]) simp_all
  then have v: "victim = numberedItem 1" and vn: "victim \<noteq> new"
    using newf(2) by (auto simp: numberedItem_def)
  have sel: "selectedId (addCanvasItem env1 ''u'' 100 100 SourceDrop fullState) = Some ''item-1''"
    using cap(2) vn by (simp add: env1_def)
  have its: "items (addCanvasItem env1 ''u'' 100 100 SourceDrop fullState)
      = remove1 (numberedItem 1) (items fullState @ [new])"
    using cap(1) v by simp
  have gone: "numberedItem 1 \<notin> set (items (addCanvasItem env1 ''u'' 100 100 SourceDrop fullState))"
    unfolding its using cap(4) by simp
  have len: "length (items (addCanvasItem env1 ''u'' 100 100 SourceDrop fullState)) = 50"
    unfolding its using cap(3) v fullState_cap(1) by (simp add: length_remove1)
  have s0: "selectedId fullState = Some (itemId (numberedItem 1))"
    by (simp add: fullState_def numberedItem_def)
  have in0: "numberedItem 1 \<in> set (items fullState)" by (simp add: fullState_def)
  show ?thesis by (intro conjI) (rule fullState_cap(1) s0 in0 gone len sel)+
qed

text \<open>
  Claim C3, as the source has it. Adding an item to a state that holds exactly 50 items
  (with pairwise distinct identifiers, and a fresh non-empty identifier for the new item,
  as \<^verbatim>\<open>crypto.randomUUID\<close> gives) removes exactly one item of the 51: one whose creation
  timestamp is the smallest. The other items stay as they are and in their order, and 50
  items are left. After the add the new item is selected, whatever was selected before.
  The selection is cleared if and only if the removed item is the new item itself, which
  happens if and only if its timestamp is smaller than that of every item already there.
\<close>

theorem add_to_full_canvas_evicts_oldest:
  assumes full: "length (items s) = 50"
    and dist: "distinct (map itemId (items s))"
    and fresh: "randomUUID env \<notin> itemId ` set (items s)"
    and nonempty: "randomUUID env \<noteq> []"
  shows "\<exists>new victim.
      new = fst (createCanvasItem env url natW natH src s)
    \<and> itemId new = randomUUID env
    \<and> victim \<in> set (items s @ [new])
    \<and> (\<forall>item\<in>set (items s @ [new]). createdAt victim \<le> createdAt item)
    \<and> items (addCanvasItem env url natW natH src s) = remove1 victim (items s @ [new])
    \<and> victim \<notin> set (items (addCanvasItem env url natW natH src s))
    \<and> length (items (addCanvasItem env url natW natH src s)) = 50
    \<and> (selectedId (addCanvasItem env url natW natH src s) = None \<longleftrightarrow> victim = new)
    \<and> (victim \<noteq> new \<longrightarrow>
          selectedId (addCanvasItem env url natW natH src s) = Some (randomUUID env))
    \<and> (victim = new \<longleftrightarrow> (\<forall>item\<in>set (items s). dateNow env < createdAt item))"
proof -
  define new where "new = fst (createCanvasItem env url natW natH src s)"
  define victim where "victim = hd (sort_key createdAt (items s @ [new]))"
  note cap = addCanvasItem_at_cap[OF full dist fresh nonempty new_def victim_def]
  have newid: "itemId new = randomUUID env" and newt: "createdAt new = dateNow env"
    by (simp_all add: new_def createCanvasItem_fields)
  have ne: "items s @ [new] \<noteq> []" by simp
  have v_min: "\<forall>item\<in>set (items s @ [new]). createdAt victim \<le> createdAt item"
    unfolding victim_def by (rule hd_sort_key_min(2)[OF ne])
  have gone: "victim \<notin> set (items (addCanvasItem env url natW natH src s))"
    unfolding cap(1) using cap(4) by simp
  have len: "length (items (addCanvasItem env url natW natH src s)) = 50"
    unfolding cap(1) using cap(3) full by (simp add: length_remove1)
  have sel1: "selectedId (addCanvasItem env url natW natH src s) = None \<longleftrightarrow> victim = new"
    unfolding cap(2) by simp
  have sel2: "victim \<noteq> new \<longrightarrow>
          selectedId (addCanvasItem env url natW natH src s) = Some (randomUUID env)"
    unfolding cap(2) by simp
  have notin: "new \<notin> set (items s)" using fresh newid by force
  have newest: "victim = new \<longleftrightarrow> (\<forall>item\<in>set (items s). dateNow env < createdAt item)"
    unfolding victim_def using hd_sort_key_snoc[OF notin, of createdAt] newt by simp
  show ?thesis
    apply (rule exI[of _ new], rule exI[of _ victim])
    apply (intro conjI)
    apply (rule new_def, rule newid, rule cap(3), rule v_min, rule cap(1), rule gone, rule len)
    apply (rule sel1, rule sel2, rule newest)
    done
qed

theorem add_to_full_canvas_evicts_oldest_witness:
  "length (items fullState) = 50
   \<and> distinct (map itemId (items fullState))
   \<and> randomUUID env1 \<notin> itemId ` set (items fullState)
   \<and> randomUUID env1 \<noteq> []
   \<and> items (addCanvasItem env1 ''u'' 100 100 SourceDrop fullState)
       = tl (items fullState) @ [fst (createCanvasItem env1 ''u'' 100 100 SourceDrop fullState)]
   \<and> selectedId (addCanvasItem env1 ''u'' 100 100 SourceDrop fullState) = Some ''item-1''"
proof -
  have h3: "randomUUID env1 \<notin> itemId ` set (items fullState)"
    using fullState_cap(3) by (simp add: env1_def)
  have h4: "randomUUID env1 \<noteq> []" by (simp add: env1_def)
  from add_to_full_canvas_evicts_oldest[OF fullState_cap(1,2) h3 h4, of "''u''" 100 100 SourceDrop]
  obtain new victim where
    new: "new = fst (createCanvasItem env1 ''u'' 100 100 SourceDrop fullState)"
    and v_in: "victim \<in> set (items fullState @ [new])"
    and v_min: "\<forall>item\<in>set (items fullState @ [new]). createdAt victim \<le> createdAt item"
    and its: "items (addCanvasItem env1 ''u'' 100 100 SourceDrop fullState)
        = remove1 victim (items fullState @ [new])"
    and sel: "victim \<noteq> new \<longrightarrow>
        selectedId (addCanvasItem env1 ''u'' 100 100 SourceDrop fullState) = Some (randomUUID env1)"
    by (elim exE conjE)
  have newf: "createdAt new = 1000" "itemId new = ''item-1''"
    by (simp_all add: new createCanvasItem_fields env1_def)
  have v: "victim = numberedItem 1"
    using v_in v_min newf(1) by (intro oldest_of_fullState[of _ new]) simp_all
  then have vn: "victim \<noteq> new" using newf(2) by (auto simp: numberedItem_def)
  have sel': "selectedId (addCanvasItem env1 ''u'' 100 100 SourceDrop fullState) = Some ''item-1''"
    using sel vn by (simp add: env1_def)
  have hd1: "numberedItem 1 = hd (items fullState)"
    by (simp add: fullState_def upt_conv_Cons)
  have ne: "items fullState \<noteq> []" using fullState_cap(1) by auto
  have rm: "remove1 (hd (items fullState)) (items fullState @ [new]) = tl (items fullState) @ [new]"
    using ne by (cases "items fullState") simp_all
  have its': "items (addCanvasItem env1 ''u'' 100 100 SourceDrop fullState)
       = tl (items fullState) @ [fst (createCanvasItem env1 ''u'' 100 100 SourceDrop fullState)]"
    unfolding its v new[symmetric] hd1 by (rule rm)
  show ?thesis by (intro conjI) (rule fullState_cap(1,2) h3 h4 its' sel')+
qed

subsection \<open>Initial placement\<close>

lemma Math_round_add_int: "Math_round (v + of_int k) = Math_round v + of_int k"
proof -
  have e: "v + of_int k + 1 / 2 = (v + 1 / 2) + of_int k" by simp
  have "\<lfloor>(v + 1 / 2) + of_int k\<rfloor> = \<lfloor>v + 1 / 2\<rfloor> + k" by (rule floor_add_int[symmetric])
  then show ?thesis unfolding Math_round_def e by simp
qed

lemma calc_offset:
  "calc center w h k =
    (Math_round (fst center - w / 2) + of_int k * 24,
     Math_round (snd center - h / 2) + of_int k * 24)"
proof -
  have "of_int k * (24::real) = of_int (k * 24)" by simp
  then show ?thesis
    unfolding calc_def PLACEMENT_OFFSET_STEP_def by (simp only: Math_round_add_int)
qed

lemma in_bounds_clamp:
  assumes "\<not> isOutOfBounds x y w h"
  shows "clamp x 0 (CANVAS_WIDTH - w) = x" and "clamp y 0 (CANVAS_HEIGHT - h) = y"
  using assms by (auto simp: isOutOfBounds_def clamp_def)

lemma resolve_in_bounds:
  assumes "\<not> isOutOfBounds (fst (calc (getViewportCenter vp) w h (placementOffsetIndex s)))
                          (snd (calc (getViewportCenter vp) w h (placementOffsetIndex s))) w h"
  shows "resolveInitialPlacement vp w h s =
    (calc (getViewportCenter vp) w h (placementOffsetIndex s),
     s\<lparr> placementOffsetIndex := placementOffsetIndex s + 1 \<rparr>)"
  using assms in_bounds_clamp[OF assms]
  by (simp add: resolveInitialPlacement_def Let_def)

lemma resolve_out_of_bounds:
  assumes "isOutOfBounds (fst (calc (getViewportCenter vp) w h (placementOffsetIndex s)))
                         (snd (calc (getViewportCenter vp) w h (placementOffsetIndex s))) w h"
  shows "resolveInitialPlacement vp w h s =
    ((clamp (fst (calc (getViewportCenter vp) w h 0)) 0 (CANVAS_WIDTH - w),
      clamp (snd (calc (getViewportCenter vp) w h 0)) 0 (CANVAS_HEIGHT - h)),
     s\<lparr> placementOffsetIndex := 1 \<rparr>)"
  using assms by (simp add: resolveInitialPlacement_def Let_def)

lemma normalize_100: "normalizeInitialSize 100 100 = (100, 100)"
  by code_simp

text \<open>Adding below the cap appends the new item and selects it.\<close>

lemma addCanvasItem_below_cap:
  assumes "length (items s) < 50"
  shows "addCanvasItem env url natW natH src s =
      (snd (createCanvasItem env url natW natH src s))
        \<lparr> items := items s @ [fst (createCanvasItem env url natW natH src s)],
          selectedId := Some (randomUUID env) \<rparr>"
  using assms by (simp add: addCanvasItem_unfold enforceImageLimit_below_cap)

lemma add_100_in_bounds:
  assumes len: "length (items s) < 50"
    and inb: "\<not> isOutOfBounds (fst (calc (getViewportCenter (viewport env)) 100 100 (placementOffsetIndex s)))
                 (snd (calc (getViewportCenter (viewport env)) 100 100 (placementOffsetIndex s))) 100 100"
  shows "\<exists>new. items (addCanvasItem env url 100 100 src s) = items s @ [new]
     \<and> width new = 100 \<and> height new = 100
     \<and> posX new = fst (calc (getViewportCenter (viewport env)) 100 100 (placementOffsetIndex s))
     \<and> posY new = snd (calc (getViewportCenter (viewport env)) 100 100 (placementOffsetIndex s))
     \<and> placementOffsetIndex (addCanvasItem env url 100 100 src s) = placementOffsetIndex s + 1"
proof -
  define new where "new = fst (createCanvasItem env url 100 100 src s)"
  have r: "resolveInitialPlacement (viewport env) 100 100 s =
    (calc (getViewportCenter (viewport env)) 100 100 (placementOffsetIndex s),
     s\<lparr> placementOffsetIndex := placementOffsetIndex s + 1 \<rparr>)"
    by (rule resolve_in_bounds[OF inb])
  have a: "items (addCanvasItem env url 100 100 src s) = items s @ [new]"
    by (simp add: addCanvasItem_below_cap[OF len] new_def)
  have b: "width new = 100" "height new = 100"
    by (simp_all add: new_def createCanvasItem_fields normalize_100)
  have c: "posX new = fst (calc (getViewportCenter (viewport env)) 100 100 (placementOffsetIndex s))"
    "posY new = snd (calc (getViewportCenter (viewport env)) 100 100 (placementOffsetIndex s))"
    by (simp_all add: new_def createCanvasItem_fields normalize_100 r)
  have d: "placementOffsetIndex (addCanvasItem env url 100 100 src s) = placementOffsetIndex s + 1"
    by (simp add: addCanvasItem_below_cap[OF len] createCanvasItem_frame normalize_100 r)
  show ?thesis
    apply (rule exI[of _ new])
    apply (intro conjI)
    apply (rule a, rule b(1), rule b(2), rule c(1), rule c(2), rule d)
    done
qed

text \<open>
  Claim C5. With \<open>c\<close> the viewport center, the candidate of \<^verbatim>\<open>resolveInitialPlacement\<close>
  for offset index \<open>k\<close> is the rounded top-left corner of the item centered on \<open>c\<close>, moved
  by \<open>k * 24\<close> along both axes. If the candidate at the stored index is inside the canvas,
  it is the position returned and the stored index grows by one. If it is outside, the
  index is reset to 0, the position is the candidate at index 0 clamped into the canvas,
  and the stored index is \<open>0 + 1\<close>. In particular, two adds of 100 by 100 images under one
  viewport, starting from a canvas without items and with the two candidates inside the
  canvas, give two items of size 100 by 100, the second exactly \<open>(24, 24)\<close> from the first.
\<close>

theorem initial_placement:
  fixes vp :: "Viewport option" and s :: ClipboardCanvasState
  defines "c \<equiv> getViewportCenter vp"
  shows "calc c w h k =
        (Math_round (fst c - w / 2) + of_int k * 24, Math_round (snd c - h / 2) + of_int k * 24)
    \<and> (\<not> isOutOfBounds (fst (calc c w h (placementOffsetIndex s)))
                        (snd (calc c w h (placementOffsetIndex s))) w h
        \<longrightarrow> resolveInitialPlacement vp w h s =
              (calc c w h (placementOffsetIndex s),
               s\<lparr> placementOffsetIndex := placementOffsetIndex s + 1 \<rparr>))
    \<and> (isOutOfBounds (fst (calc c w h (placementOffsetIndex s)))
                      (snd (calc c w h (placementOffsetIndex s))) w h
        \<longrightarrow> resolveInitialPlacement vp w h s =
              ((clamp (fst (calc c w h 0)) 0 (CANVAS_WIDTH - w),
                clamp (snd (calc c w h 0)) 0 (CANVAS_HEIGHT - h)),
               s\<lparr> placementOffsetIndex := 0 + 1 \<rparr>))
    \<and> (items s = [] \<and> viewport envA = vp \<and> viewport envB = vp
        \<and> \<not> isOutOfBounds (fst (calc c 100 100 (placementOffsetIndex s)))
                          (snd (calc c 100 100 (placementOffsetIndex s))) 100 100
        \<and> \<not> isOutOfBounds (fst (calc c 100 100 (placementOffsetIndex s + 1)))
                          (snd (calc c 100 100 (placementOffsetIndex s + 1))) 100 100
        \<longrightarrow> (\<exists>itemA itemB.
              items (addCanvasItem envB urlB 100 100 srcB (addCanvasItem envA urlA 100 100 srcA s))
                = [itemA, itemB]
              \<and> width itemA = 100 \<and> height itemA = 100 \<and> width itemB = 100 \<and> height itemB = 100
              \<and> posX itemB = posX itemA + 24 \<and> posY itemB = posY itemA + 24))"
proof -
  have p1: "calc c w h k =
        (Math_round (fst c - w / 2) + of_int k * 24, Math_round (snd c - h / 2) + of_int k * 24)"
    by (rule calc_offset)
  have p2: "\<not> isOutOfBounds (fst (calc c w h (placementOffsetIndex s)))
                        (snd (calc c w h (placementOffsetIndex s))) w h
        \<longrightarrow> resolveInitialPlacement vp w h s =
              (calc c w h (placementOffsetIndex s),
               s\<lparr> placementOffsetIndex := placementOffsetIndex s + 1 \<rparr>)"
    unfolding c_def using resolve_in_bounds by blast
  have p3: "isOutOfBounds (fst (calc c w h (placementOffsetIndex s)))
                      (snd (calc c w h (placementOffsetIndex s))) w h
        \<longrightarrow> resolveInitialPlacement vp w h s =
              ((clamp (fst (calc c w h 0)) 0 (CANVAS_WIDTH - w),
                clamp (snd (calc c w h 0)) 0 (CANVAS_HEIGHT - h)),
               s\<lparr> placementOffsetIndex := 0 + 1 \<rparr>)"
    unfolding c_def using resolve_out_of_bounds by simp
  have p4: "items s = [] \<and> viewport envA = vp \<and> viewport envB = vp
        \<and> \<not> isOutOfBounds (fst (calc c 100 100 (placementOffsetIndex s)))
                          (snd (calc c 100 100 (placementOffsetIndex s))) 100 100
        \<and> \<not> isOutOfBounds (fst (calc c 100 100 (placementOffsetIndex s + 1)))
                          (snd (calc c 100 100 (placementOffsetIndex s + 1))) 100 100
        \<longrightarrow> (\<exists>itemA itemB.
              items (addCanvasItem envB urlB 100 100 srcB (addCanvasItem envA urlA 100 100 srcA s))
                = [itemA, itemB]
              \<and> width itemA = 100 \<and> height itemA = 100 \<and> width itemB = 100 \<and> height itemB = 100
              \<and> posX itemB = posX itemA + 24 \<and> posY itemB = posY itemA + 24)"
  proof (intro impI, elim conjE)
    assume empty: "items s = []" and va: "viewport envA = vp" and vb: "viewport envB = vp"
      and inA: "\<not> isOutOfBounds (fst (calc c 100 100 (placementOffsetIndex s)))
                          (snd (calc c 100 100 (placementOffsetIndex s))) 100 100"
      and inB: "\<not> isOutOfBounds (fst (calc c 100 100 (placementOffsetIndex s + 1)))
                          (snd (calc c 100 100 (placementOffsetIndex s + 1))) 100 100"
    define s1 where "s1 = addCanvasItem envA urlA 100 100 srcA s"
    have lenA: "length (items s) < 50" using empty by simp
    have inA': "\<not> isOutOfBounds
        (fst (calc (getViewportCenter (viewport envA)) 100 100 (placementOffsetIndex s)))
        (snd (calc (getViewportCenter (viewport envA)) 100 100 (placementOffsetIndex s))) 100 100"
      using inA unfolding c_def va .
    obtain itemA where A: "items s1 = items s @ [itemA]" "width itemA = 100" "height itemA = 100"
        "posX itemA = fst (calc c 100 100 (placementOffsetIndex s))"
        "posY itemA = snd (calc c 100 100 (placementOffsetIndex s))"
        "placementOffsetIndex s1 = placementOffsetIndex s + 1"
      using add_100_in_bounds[OF lenA inA', of urlA srcA]
      unfolding s1_def c_def va by blast
    have lenB: "length (items s1) < 50" using A(1) empty by simp
    have inB': "\<not> isOutOfBounds
        (fst (calc (getViewportCenter (viewport envB)) 100 100 (placementOffsetIndex s1)))
        (snd (calc (getViewportCenter (viewport envB)) 100 100 (placementOffsetIndex s1))) 100 100"
      using inB unfolding c_def vb A(6) .
    obtain itemB where B: "items (addCanvasItem envB urlB 100 100 srcB s1) = items s1 @ [itemB]"
        "width itemB = 100" "height itemB = 100"
        "posX itemB = fst (calc c 100 100 (placementOffsetIndex s + 1))"
        "posY itemB = snd (calc c 100 100 (placementOffsetIndex s + 1))"
      using add_100_in_bounds[OF lenB inB', of urlB srcB]
      unfolding c_def vb A(6) by blast
    have shift: "fst (calc c 100 100 (placementOffsetIndex s + 1))
          = fst (calc c 100 100 (placementOffsetIndex s)) + 24"
      "snd (calc c 100 100 (placementOffsetIndex s + 1))
          = snd (calc c 100 100 (placementOffsetIndex s)) + 24"
      by (simp_all add: calc_offset algebra_simps)
    have l: "items (addCanvasItem envB urlB 100 100 srcB s1) = [itemA, itemB]"
      by (simp add: B(1) A(1) empty)
    have x: "posX itemB = posX itemA + 24" by (simp only: B(4) A(4) shift(1))
    have y: "posY itemB = posY itemA + 24" by (simp only: B(5) A(5) shift(2))
    show "\<exists>itemA itemB.
              items (addCanvasItem envB urlB 100 100 srcB (addCanvasItem envA urlA 100 100 srcA s))
                = [itemA, itemB]
              \<and> width itemA = 100 \<and> height itemA = 100 \<and> width itemB = 100 \<and> height itemB = 100
              \<and> posX itemB = posX itemA + 24 \<and> posY itemB = posY itemA + 24"
      apply (rule exI[of _ itemA], rule exI[of _ itemB])
      apply (fold s1_def)
      apply (intro conjI)
      apply (rule l, rule A(2), rule A(3), rule B(2), rule B(3), rule x, rule y)
      done
  qed
  show ?thesis
    by (intro conjI) (rule p1, rule p2, rule p3, rule p4)
qed

theorem initial_placement_witness:
  "items initialState = [] \<and> viewport env1 = None \<and> viewport env2 = None
   \<and> isOutOfBounds (fst (calc (getViewportCenter None) 100 100 0))
                     (snd (calc (getViewportCenter None) 100 100 0)) 100 100 = False
   \<and> isOutOfBounds (fst (calc (getViewportCenter None) 100 100 1))
                     (snd (calc (getViewportCenter None) 100 100 1)) 100 100 = False
   \<and> resolveInitialPlacement None 100 100 initialState
        = ((950, 950), initialState\<lparr> placementOffsetIndex := 1 \<rparr>)
   \<and> isOutOfBounds (fst (calc (getViewportCenter None) 100 100 44))
                     (snd (calc (getViewportCenter None) 100 100 44)) 100 100
   \<and> resolveInitialPlacement None 100 100 (initialState\<lparr> placementOffsetIndex := 44 \<rparr>)
        = ((950, 950), initialState\<lparr> placementOffsetIndex := 1 \<rparr>)
   \<and> (\<exists>itemA itemB.
         items (addCanvasItem env2 ''b'' 100 100 SourcePaste
                  (addCanvasItem env1 ''a'' 100 100 SourcePaste initialState)) = [itemA, itemB]
         \<and> width itemA = 100 \<and> height itemA = 100 \<and> width itemB = 100 \<and> height itemB = 100
         \<and> posX itemB = posX itemA + 24 \<and> posY itemB = posY itemA + 24)"
proof -
  note t = initial_placement[where vp = None and w = 100 and h = 100 and k = 0
      and s = initialState and envA = env1 and envB = env2 and urlA = "''a''" and urlB = "''b''"
      and srcA = SourcePaste and srcB = SourcePaste]
  note u = initial_placement[where vp = None and w = 100 and h = 100 and k = 0
      and s = "initialState\<lparr> placementOffsetIndex := 44 \<rparr>"]
  have e: "items initialState = []" by code_simp
  have v: "viewport env1 = None" "viewport env2 = None" by code_simp+
  have p0: "placementOffsetIndex initialState = 0"
    "placementOffsetIndex (initialState\<lparr> placementOffsetIndex := 44 \<rparr>) = 44" by code_simp+
  have c0: "calc (getViewportCenter None) 100 100 0 = (950, 950)" by code_simp
  have c1: "calc (getViewportCenter None) 100 100 1 = (974, 974)" by code_simp
  have c44: "calc (getViewportCenter None) 100 100 44 = (2006, 2006)" by code_simp
  have b0: "\<not> isOutOfBounds (fst (calc (getViewportCenter None) 100 100 0))
                     (snd (calc (getViewportCenter None) 100 100 0)) 100 100"
    unfolding c0 by (simp add: isOutOfBounds_def)
  have b1: "\<not> isOutOfBounds (fst (calc (getViewportCenter None) 100 100 1))
                     (snd (calc (getViewportCenter None) 100 100 1)) 100 100"
    unfolding c1 by (simp add: isOutOfBounds_def)
  have b44: "isOutOfBounds (fst (calc (getViewportCenter None) 100 100 44))
                     (snd (calc (getViewportCenter None) 100 100 44)) 100 100"
    unfolding c44 by (simp add: isOutOfBounds_def)
  have cl: "clamp 950 0 1900 = 950"
    by (simp add: clamp_def)
  have r0: "resolveInitialPlacement None 100 100 initialState
        = ((950, 950), initialState\<lparr> placementOffsetIndex := 1 \<rparr>)"
    using t[THEN conjunct2, THEN conjunct1] b0 by (simp add: p0 c0)
  have r44: "resolveInitialPlacement None 100 100 (initialState\<lparr> placementOffsetIndex := 44 \<rparr>)
        = ((950, 950), initialState\<lparr> placementOffsetIndex := 1 \<rparr>)"
    using u[THEN conjunct2, THEN conjunct2, THEN conjunct1] b44 by (simp add: p0 c0 cl)
  have two: "\<exists>itemA itemB.
         items (addCanvasItem env2 ''b'' 100 100 SourcePaste
                  (addCanvasItem env1 ''a'' 100 100 SourcePaste initialState)) = [itemA, itemB]
         \<and> width itemA = 100 \<and> height itemA = 100 \<and> width itemB = 100 \<and> height itemB = 100
         \<and> posX itemB = posX itemA + 24 \<and> posY itemB = posY itemA + 24"
    using t[THEN conjunct2, THEN conjunct2, THEN conjunct2] e v b0 b1 by (simp add: p0)
  show ?thesis
    apply (intro conjI)
    apply (rule e, rule v(1), rule v(2))
    using b0 apply simp
    using b1 apply simp
    apply (rule r0, rule b44, rule r44, rule two)
    done
qed

subsection \<open>Pushing a snapshot\<close>

lemma pushUndo_fields:
  "undoStack (pushUndo snapshot a)
     = drop (length (undoStack a) + 1 - 50) (undoStack a @ [snapshot])"
  "state (pushUndo snapshot a) = state a"
  "interaction (pushUndo snapshot a) = interaction a"
  "noticeMessage (pushUndo snapshot a) = noticeMessage a"
  "isDragActive (pushUndo snapshot a) = isDragActive a"
  by (simp_all add: pushUndo_def Let_def)

subsection \<open>Move sessions and undo\<close>

lemma getItemById_None_iff: "getItemById iid s = None \<longleftrightarrow> iid \<notin> itemId ` set (items s)"
  by (auto simp: getItemById_def find_None_iff)

lemma updateItem_ids:
  assumes "\<And>t. itemId (f t) = itemId t"
  shows "map itemId (items (updateItem iid f s)) = map itemId (items s)"
  by (simp add: updateItem_def assms comp_def)

lemma updateItem_frame:
  "selectedId (updateItem iid f s) = selectedId s"
  "nextZIndex (updateItem iid f s) = nextZIndex s"
  "placementOffsetIndex (updateItem iid f s) = placementOffsetIndex s"
  by (simp_all add: updateItem_def)

lemma ids_set: "itemId ` set (items s) = set (map itemId (items s))"
  by simp

lemma handlePointerMove_move:
  assumes sess: "interaction a = Some (MoveInteraction iid cx cy sx sy snap)"
    and present: "iid \<in> itemId ` set (items (state a))"
  shows "\<exists>b. handlePointerMove event a = Some b
      \<and> interaction b = interaction a \<and> undoStack b = undoStack a
      \<and> map itemId (items (state b)) = map itemId (items (state a))"
proof -
  obtain item where item: "getItemById iid (state a) = Some item"
    using present getItemById_None_iff[of iid "state a"] by (cases "getItemById iid (state a)") auto
  define b where "b = a\<lparr> state :=
      updateItem iid
        (\<lambda>target. target\<lparr> posX := Math_round (clamp (sx + (clientX event - cx)) 0 (CANVAS_WIDTH - width item)),
                          posY := Math_round (clamp (sy + (clientY event - cy)) 0 (CANVAS_HEIGHT - height item)) \<rparr>)
        (state a) \<rparr>"
  have "handlePointerMove event a = Some b"
    unfolding handlePointerMove_def sess b_def using item by (simp add: Let_def)
  moreover have "interaction b = interaction a" "undoStack b = undoStack a"
    by (simp_all add: b_def)
  moreover have "map itemId (items (state b)) = map itemId (items (state a))"
    unfolding b_def by (simp add: updateItem_ids)
  ultimately show ?thesis by blast
qed

lemma run_moves_in_move_session:
  assumes sess: "interaction a = Some (MoveInteraction iid cx cy sx sy snap)"
    and present: "iid \<in> itemId ` set (items (state a))"
  shows "\<exists>b. run (map EvMouseMove moves) a = Some b
      \<and> interaction b = interaction a \<and> undoStack b = undoStack a"
  using assms
proof (induction moves arbitrary: a)
  case Nil
  show ?case by simp
next
  case (Cons m moves)
  obtain b where b: "handlePointerMove m a = Some b" "interaction b = interaction a"
      "undoStack b = undoStack a" "map itemId (items (state b)) = map itemId (items (state a))"
    using handlePointerMove_move[OF Cons.prems, of m] by blast
  have sb: "interaction b = Some (MoveInteraction iid cx cy sx sy snap)"
    using b(2) Cons.prems(1) by simp
  have pb: "iid \<in> itemId ` set (items (state b))"
    using Cons.prems(2) b(4) by (metis ids_set)
  obtain c where c: "run (map EvMouseMove moves) b = Some c" "interaction c = interaction b"
      "undoStack c = undoStack b"
    using Cons.IH[OF sb pb] by blast
  have "run (map EvMouseMove (m # moves)) a = Some c"
    using b(1) c(1) by simp
  then show ?case using b(2,3) c(2,3) by simp
qed

lemma selectItem_ids: "map itemId (items (selectItem iid s)) = map itemId (items s)"
  by (simp add: selectItem_def bringToFront_def updateItem_def Let_def comp_def getItemById_def
      split: option.split)

lemma butlast_drop_snoc:
  "k \<le> length xs \<Longrightarrow> butlast (drop k (xs @ [x])) = drop k xs"
  by (simp add: butlast_drop)

lemma last_drop_snoc:
  "k \<le> length xs \<Longrightarrow> last (drop k (xs @ [x])) = x"
  by simp

text \<open>
  Claim C2. Take any component with an item \<open>iid\<close>, press the primary button on it
  (\<^verbatim>\<open>startMove\<close>), move the pointer any number of times and release it. The moves always
  go through. If the release finds the state changed with respect to the pre-session
  snapshot (the test of \<^verbatim>\<open>stopInteraction\<close>), it pushes that snapshot, which is the state
  before the press, and an \<^verbatim>\<open>undo()\<close> right after it pops exactly that entry and makes
  it the live state: the canvas state is the one before the press as a whole, so the item
  has its position and size of before the move, and the undo stack is the one of before
  (less its oldest entry when it was full).
\<close>

theorem undo_restores_pre_move_state:
  assumes present: "getItemById iid (state a) = Some item"
    and primary: "button ev = 0"
  shows "\<exists>a2. run (map EvMouseMove moves) (startMove True ev iid a) = Some a2
     \<and> (isUndoTargetChanged (state a) (state a2) \<longrightarrow>
          undoStack (handlePointerUp a2)
            = drop (length (undoStack a) + 1 - 50) (undoStack a @ [state a])
        \<and> state (undo (handlePointerUp a2)) = state a
        \<and> getItemById iid (state (undo (handlePointerUp a2))) = Some item
        \<and> undoStack (undo (handlePointerUp a2))
            = drop (length (undoStack a) + 1 - 50) (undoStack a)
        \<and> interaction (undo (handlePointerUp a2)) = None)"
proof -
  define a1 where "a1 = startMove True ev iid a"
  have a1: "a1 = a\<lparr> state := selectItem iid (state a),
        interaction := Some (MoveInteraction iid (clientX ev) (clientY ev)
                               (posX item) (posY item) (state a)) \<rparr>"
    unfolding a1_def startMove_def using present primary by (simp add: Let_def)
  have sess: "interaction a1 = Some (MoveInteraction iid (clientX ev) (clientY ev)
                               (posX item) (posY item) (state a))"
    by (simp add: a1)
  have "iid \<in> itemId ` set (items (state a))"
    using present getItemById_None_iff[of iid "state a"] by auto
  then have pres1: "iid \<in> itemId ` set (items (state a1))"
    unfolding ids_set a1 by (simp add: selectItem_ids)
  obtain a2 where a2: "run (map EvMouseMove moves) a1 = Some a2"
      "interaction a2 = interaction a1" "undoStack a2 = undoStack a1"
    using run_moves_in_move_session[OF sess pres1] by blast
  have stack2: "undoStack a2 = undoStack a" by (simp add: a2(3) a1)
  have sess2: "interaction a2 = Some (MoveInteraction iid (clientX ev) (clientY ev)
                               (posX item) (posY item) (state a))"
    by (simp add: a2(2) sess)
  have main: "isUndoTargetChanged (state a) (state a2) \<longrightarrow>
          undoStack (handlePointerUp a2)
            = drop (length (undoStack a) + 1 - 50) (undoStack a @ [state a])
        \<and> state (undo (handlePointerUp a2)) = state a
        \<and> getItemById iid (state (undo (handlePointerUp a2))) = Some item
        \<and> undoStack (undo (handlePointerUp a2))
            = drop (length (undoStack a) + 1 - 50) (undoStack a)
        \<and> interaction (undo (handlePointerUp a2)) = None"
  proof
    assume changed: "isUndoTargetChanged (state a) (state a2)"
    define a3 where "a3 = handlePointerUp a2"
    have a3: "a3 = pushUndo (state a) (a2\<lparr> interaction := None \<rparr>)"
      unfolding a3_def handlePointerUp_def stopInteraction_def sess2
      using changed by (simp add: Let_def)
    have st3: "undoStack a3 = drop (length (undoStack a) + 1 - 50) (undoStack a @ [state a])"
      unfolding a3 by (simp add: pushUndo_fields stack2)
    have int3: "interaction a3 = None"
      unfolding a3 by (simp add: pushUndo_fields)
    have k: "length (undoStack a) + 1 - 50 \<le> length (undoStack a)" by simp
    have ne: "undoStack a3 \<noteq> []"
      unfolding st3 by simp
    have lst: "last (undoStack a3) = state a"
      unfolding st3 by (rule last_drop_snoc[OF k])
    have btl: "butlast (undoStack a3) = drop (length (undoStack a) + 1 - 50) (undoStack a)"
      unfolding st3 by (rule butlast_drop_snoc[OF k])
    have u: "undo a3 = a3\<lparr> undoStack := butlast (undoStack a3), state := last (undoStack a3),
                         noticeMessage := NoticeUndone \<rparr>"
      using ne int3 by (cases "undoStack a3") (simp_all add: undo_def canUndo_def Let_def)
    have r1: "state (undo a3) = state a" unfolding u by (simp add: lst)
    have r2: "getItemById iid (state (undo a3)) = Some item" unfolding r1 by (rule present)
    have r3: "undoStack (undo a3) = drop (length (undoStack a) + 1 - 50) (undoStack a)"
      unfolding u by (simp add: btl)
    have r4: "interaction (undo a3) = None" unfolding u by (simp add: int3)
    show "undoStack (handlePointerUp a2)
            = drop (length (undoStack a) + 1 - 50) (undoStack a @ [state a])
        \<and> state (undo (handlePointerUp a2)) = state a
        \<and> getItemById iid (state (undo (handlePointerUp a2))) = Some item
        \<and> undoStack (undo (handlePointerUp a2))
            = drop (length (undoStack a) + 1 - 50) (undoStack a)
        \<and> interaction (undo (handlePointerUp a2)) = None"
      unfolding a3_def[symmetric]
      by (intro conjI) (rule st3, rule r1, rule r2, rule r3, rule r4)
  qed
  show ?thesis
    apply (rule exI[of _ a2])
    apply (fold a1_def)
    apply (rule conjI)
     apply (rule a2(1))
    apply (rule main)
    done
qed

theorem undo_restores_pre_move_state_witness:
  "getItemById ''item-1'' (state pastedOne) = Some item1
   \<and> button (mouseAt 0 0) = 0
   \<and> run (map EvMouseMove [mouseAt 30 40]) (startMove True (mouseAt 0 0) ''item-1'' pastedOne)
       = Some movedOne
   \<and> isUndoTargetChanged (state pastedOne) (state movedOne)
   \<and> state (undo (handlePointerUp movedOne)) = state pastedOne
   \<and> getItemById ''item-1'' (state (undo (handlePointerUp movedOne))) = Some item1
   \<and> undoStack (undo (handlePointerUp movedOne)) = [initialState]"
proof -
  have h1: "getItemById ''item-1'' (state pastedOne) = Some item1"
    unfolding pastedOne_eq by code_simp
  have h2: "button (mouseAt 0 0) = 0" by code_simp
  have r: "run (map EvMouseMove [mouseAt 30 40]) (startMove True (mouseAt 0 0) ''item-1'' pastedOne)
       = Some movedOne" unfolding pastedOne_eq movedOne_def draggingOne_eq by code_simp
  have ch: "isUndoTargetChanged (state pastedOne) (state movedOne)"
    unfolding pastedOne_eq movedOne_def draggingOne_eq by code_simp
  have us: "drop (length (undoStack pastedOne) + 1 - 50) (undoStack pastedOne) = [initialState]"
    unfolding pastedOne_eq by code_simp
  obtain a2 where a2: "run (map EvMouseMove [mouseAt 30 40])
        (startMove True (mouseAt 0 0) ''item-1'' pastedOne) = Some a2"
    and imp: "isUndoTargetChanged (state pastedOne) (state a2) \<longrightarrow>
          undoStack (handlePointerUp a2)
            = drop (length (undoStack pastedOne) + 1 - 50) (undoStack pastedOne @ [state pastedOne])
        \<and> state (undo (handlePointerUp a2)) = state pastedOne
        \<and> getItemById ''item-1'' (state (undo (handlePointerUp a2))) = Some item1
        \<and> undoStack (undo (handlePointerUp a2))
            = drop (length (undoStack pastedOne) + 1 - 50) (undoStack pastedOne)
        \<and> interaction (undo (handlePointerUp a2)) = None"
    using undo_restores_pre_move_state[OF h1 h2, of "[mouseAt 30 40]"] by (elim exE conjE)
  have eq: "a2 = movedOne" using a2 r by simp
  note c = imp[unfolded eq, THEN mp, OF ch]
  show ?thesis
    apply (intro conjI)
    apply (rule h1, rule h2, rule r, rule ch)
    apply (rule c[THEN conjunct2, THEN conjunct1])
    apply (rule c[THEN conjunct2, THEN conjunct2, THEN conjunct1])
    apply (rule trans[OF c[THEN conjunct2, THEN conjunct2, THEN conjunct2, THEN conjunct1] us])
    done
qed

subsection \<open>Doubles\<close>

lemma binade_bounds:
  "0 < x \<Longrightarrow> 0 < binade x \<and> binade x \<le> x \<and> x < 2 * binade x"
proof (induction x rule: binade.induct)
  case (1 x)
  show ?case
  proof (cases "2 \<le> x")
    case True
    then have "0 < x / 2" by simp
    from "1.IH"(1)[OF True this] True show ?thesis
      by (subst (1 2 3) binade.simps) simp
  next
    case False
    show ?thesis
    proof (cases "x < 1")
      case True
      have c: "0 < x \<and> x < 1" using "1.prems" True by simp
      have "0 < x * 2" using "1.prems" by simp
      from "1.IH"(2)[OF False c this] False c show ?thesis
        by (subst (1 2 3) binade.simps) simp
    next
      case b: False
      then show ?thesis using False
        by (subst (1 2 3) binade.simps) simp
    qed
  qed
qed

lemma binade_pow2: "0 < x \<Longrightarrow> \<exists>k::int. binade x = 2 powi k"
proof (induction x rule: binade.induct)
  case (1 x)
  show ?case
  proof (cases "2 \<le> x")
    case True
    then have "0 < x / 2" by simp
    from "1.IH"(1)[OF True this] obtain k :: int where k: "binade (x / 2) = 2 powi k" by blast
    have "binade x = 2 * binade (x / 2)" using True by (subst binade.simps) simp
    also have "\<dots> = 2 powi (k + 1)" by (simp add: k power_int_add)
    finally show ?thesis by blast
  next
    case False
    show ?thesis
    proof (cases "x < 1")
      case True
      have c: "0 < x \<and> x < 1" using "1.prems" True by simp
      have "0 < x * 2" using "1.prems" by simp
      from "1.IH"(2)[OF False c this] obtain k :: int where k: "binade (x * 2) = 2 powi k" by blast
      have "binade x = binade (x * 2) / 2" using False c by (subst binade.simps) simp
      also have "\<dots> = 2 powi (k - 1)" by (simp add: k power_int_diff)
      finally show ?thesis by blast
    next
      case b: False
      then have "binade x = 2 powi 0" using False by (subst binade.simps) simp
      then show ?thesis by blast
    qed
  qed
qed

lemma pow2_gap:
  fixes j k :: int
  assumes "(2::real) powi j < 2 powi k"
  shows "2 * 2 powi j \<le> (2::real) powi k"
proof -
  have "j < k"
  proof (rule ccontr)
    assume "\<not> j < k"
    then have "k \<le> j" by simp
    then have "(2::real) powi k \<le> 2 powi j" by (intro power_int_increasing) simp_all
    then show False using assms by simp
  qed
  then have "j + 1 \<le> k" by simp
  then have "(2::real) powi (j + 1) \<le> 2 powi k" by (intro power_int_increasing) simp_all
  then show ?thesis by (simp add: power_int_add)
qed

lemma binade_mono:
  assumes "0 < x" "x \<le> y"
  shows "binade x \<le> binade y"
proof (rule ccontr)
  assume "\<not> binade x \<le> binade y"
  then have lt: "binade y < binade x" by simp
  have y: "0 < y" using assms by simp
  obtain j k :: int where j: "binade y = 2 powi j" and k: "binade x = 2 powi k"
    using binade_pow2[OF y] binade_pow2[OF assms(1)] by blast
  have "2 * binade y \<le> binade x" using lt pow2_gap[of j k] unfolding j k by simp
  moreover have "binade x \<le> x" using binade_bounds[OF assms(1)] by simp
  moreover have "y < 2 * binade y" using binade_bounds[OF y] by simp
  ultimately show False using assms(2) by simp
qed

lemma roundTiesToEven_near: "\<bar>of_int (roundTiesToEven m) - m\<bar> \<le> 1 / 2"
  unfolding roundTiesToEven_def Let_def by (auto; linarith)

lemma roundTiesToEven_of_int [simp]: "roundTiesToEven (of_int n) = n"
  by (simp add: roundTiesToEven_def)

lemma roundTiesToEven_mono:
  assumes "m \<le> m'"
  shows "roundTiesToEven m \<le> roundTiesToEven m'"
proof (cases "\<lfloor>m\<rfloor> = \<lfloor>m'\<rfloor>")
  case True
  have "m - of_int \<lfloor>m\<rfloor> \<le> m' - of_int \<lfloor>m\<rfloor>" using assms by simp
  then show ?thesis
    unfolding roundTiesToEven_def Let_def True[symmetric] by auto
next
  case False
  have "\<lfloor>m\<rfloor> \<le> \<lfloor>m'\<rfloor>" using assms by (rule floor_mono)
  then have lt: "\<lfloor>m\<rfloor> + 1 \<le> \<lfloor>m'\<rfloor>" using False by simp
  have "roundTiesToEven m \<le> \<lfloor>m\<rfloor> + 1"
    unfolding roundTiesToEven_def Let_def by auto
  moreover have "\<lfloor>m'\<rfloor> \<le> roundTiesToEven m'"
    unfolding roundTiesToEven_def Let_def by auto
  ultimately show ?thesis using lt by simp
qed

lemma toDouble_pos:
  assumes "0 < x"
  shows "toDouble x = of_int (roundTiesToEven (x / (binade x / 2 ^ 52))) * (binade x / 2 ^ 52)"
  using assms by (simp add: toDouble_def Let_def)

lemma toDouble_zero [simp]: "toDouble 0 = 0"
  by (simp add: toDouble_def)

lemma toDouble_minus: "toDouble (- x) = - toDouble x"
  by (simp add: toDouble_def Let_def sgn_minus)

lemma mantissa_range:
  assumes "0 < x"
  shows "2 ^ 52 \<le> x / (binade x / 2 ^ 52)" and "x / (binade x / 2 ^ 52) < 2 ^ 53"
proof -
  have b: "0 < binade x" "binade x \<le> x" "x < 2 * binade x"
    using binade_bounds[OF assms] by simp_all
  have e: "x / (binade x / 2 ^ 52) = (x / binade x) * 2 ^ 52" by simp
  have "1 \<le> x / binade x" using b by simp
  then have "1 * 2 ^ 52 \<le> (x / binade x) * 2 ^ 52" by (intro mult_right_mono) simp_all
  then show "2 ^ 52 \<le> x / (binade x / 2 ^ 52)" unfolding e by simp
  have "x / binade x < 2" using b by (simp add: pos_divide_less_eq)
  then have "(x / binade x) * 2 ^ 52 < 2 * 2 ^ 52" by (intro mult_strict_right_mono) simp_all
  then show "x / (binade x / 2 ^ 52) < 2 ^ 53" unfolding e by simp
qed

lemma toDouble_range:
  assumes "0 < x"
  shows "binade x \<le> toDouble x" and "toDouble x \<le> 2 * binade x"
proof -
  define u where "u = binade x / 2 ^ 52"
  define m where "m = x / u"
  have b: "0 < binade x" using binade_bounds[OF assms] by simp
  have u: "0 < u" using b by (simp add: u_def)
  have m1: "2 ^ 52 \<le> m" and m2: "m < 2 ^ 53"
    using mantissa_range[OF assms] by (simp_all add: m_def u_def)
  have "roundTiesToEven (of_int (2 ^ 52)) \<le> roundTiesToEven m"
    by (rule roundTiesToEven_mono) (use m1 in simp)
  then have r1: "(2::real) ^ 52 \<le> of_int (roundTiesToEven m)"
    by (simp only: roundTiesToEven_of_int) (metis of_int_le_iff of_int_numeral of_int_power)
  have "roundTiesToEven m \<le> roundTiesToEven (of_int (2 ^ 53))"
    by (rule roundTiesToEven_mono) (use m2 in simp)
  then have r2: "of_int (roundTiesToEven m) \<le> (2::real) ^ 53"
    by (simp only: roundTiesToEven_of_int) (metis of_int_le_iff of_int_numeral of_int_power)
  have t: "toDouble x = of_int (roundTiesToEven m) * u"
    using toDouble_pos[OF assms] by (simp add: m_def u_def)
  have "2 ^ 52 * u \<le> of_int (roundTiesToEven m) * u" using r1 u by simp
  then show "binade x \<le> toDouble x" unfolding t by (simp add: u_def)
  have "of_int (roundTiesToEven m) * u \<le> 2 ^ 53 * u" using r2 u by simp
  then show "toDouble x \<le> 2 * binade x" unfolding t by (simp add: u_def)
qed

lemma toDouble_error_pos:
  assumes "0 < x"
  shows "\<bar>toDouble x - x\<bar> \<le> x / 2 ^ 53"
proof -
  define u where "u = binade x / 2 ^ 52"
  define m where "m = x / u"
  have b: "0 < binade x" "binade x \<le> x" using binade_bounds[OF assms] by simp_all
  have u: "0 < u" using b by (simp add: u_def)
  have x: "x = m * u" using u by (simp add: m_def)
  have t: "toDouble x = of_int (roundTiesToEven m) * u"
    using toDouble_pos[OF assms] by (simp add: m_def u_def)
  have "toDouble x - x = of_int (roundTiesToEven m) * u - m * u"
    unfolding t using x by simp
  then have "toDouble x - x = (of_int (roundTiesToEven m) - m) * u"
    by (simp add: algebra_simps)
  then have "\<bar>toDouble x - x\<bar> = \<bar>of_int (roundTiesToEven m) - m\<bar> * u"
    using u by (simp add: abs_mult)
  also have "\<dots> \<le> (1 / 2) * u"
    using roundTiesToEven_near[of m] u by (intro mult_right_mono) simp_all
  also have "\<dots> = binade x / 2 ^ 53" by (simp add: u_def)
  also have "\<dots> \<le> x / 2 ^ 53" using b by (simp add: divide_right_mono)
  finally show ?thesis .
qed

lemma toDouble_error: "\<bar>toDouble x - x\<bar> \<le> \<bar>x\<bar> / 2 ^ 53"
proof (cases "0 < x")
  case True
  then show ?thesis using toDouble_error_pos[OF True] by simp
next
  case False
  show ?thesis
  proof (cases "x = 0")
    case True
    then show ?thesis by simp
  next
    case nz: False
    then have p: "0 < - x" using False by simp
    have "\<bar>toDouble x - x\<bar> = \<bar>toDouble (- x) - (- x)\<bar>"
      by (simp add: toDouble_minus)
    also have "\<dots> \<le> (- x) / 2 ^ 53" by (rule toDouble_error_pos[OF p])
    finally show ?thesis using p by simp
  qed
qed

lemma toDouble_mono_pos:
  assumes "0 < x" "x \<le> y"
  shows "toDouble x \<le> toDouble y"
proof (cases "binade x = binade y")
  case True
  have y: "0 < y" using assms by simp
  define u where "u = binade x / 2 ^ 52"
  have u: "0 < u" using binade_bounds[OF assms(1)] by (simp add: u_def)
  have "x / u \<le> y / u" using assms(2) u by (simp add: divide_right_mono)
  then have "roundTiesToEven (x / u) \<le> roundTiesToEven (y / u)" by (rule roundTiesToEven_mono)
  then have "of_int (roundTiesToEven (x / u)) * u \<le> of_int (roundTiesToEven (y / u)) * u"
    using u by simp
  then show ?thesis
    unfolding toDouble_pos[OF assms(1)] toDouble_pos[OF y] True[symmetric] u_def .
next
  case False
  have y: "0 < y" using assms by simp
  have "binade x \<le> binade y" by (rule binade_mono[OF assms])
  then have lt: "binade x < binade y" using False by simp
  obtain j k :: int where j: "binade x = 2 powi j" and k: "binade y = 2 powi k"
    using binade_pow2[OF assms(1)] binade_pow2[OF y] by blast
  have "2 * binade x \<le> binade y" using lt pow2_gap[of j k] unfolding j k by simp
  moreover have "toDouble x \<le> 2 * binade x" by (rule toDouble_range(2)[OF assms(1)])
  moreover have "binade y \<le> toDouble y" by (rule toDouble_range(1)[OF y])
  ultimately show ?thesis by simp
qed

lemma toDouble_nonneg: "0 \<le> x \<Longrightarrow> 0 \<le> toDouble x"
proof (cases "x = 0")
  case True
  then show ?thesis by simp
next
  case False
  assume "0 \<le> x"
  then have p: "0 < x" using False by simp
  have "0 < binade x" using binade_bounds[OF p] by simp
  then show ?thesis using toDouble_range(1)[OF p] by simp
qed

lemma toDouble_mono:
  assumes "x \<le> y"
  shows "toDouble x \<le> toDouble y"
proof -
  consider "0 < x" | "x \<le> 0" "0 \<le> y" | "y < 0" by linarith
  then show ?thesis
  proof cases
    case 1
    then show ?thesis using toDouble_mono_pos assms by simp
  next
    case 2
    have "toDouble x = - toDouble (- x)" by (simp add: toDouble_minus)
    moreover have "0 \<le> toDouble (- x)" using 2(1) by (intro toDouble_nonneg) simp
    moreover have "0 \<le> toDouble y" using 2(2) by (rule toDouble_nonneg)
    ultimately show ?thesis by simp
  next
    case 3
    have "toDouble (- y) \<le> toDouble (- x)"
      using 3 assms by (intro toDouble_mono_pos) simp_all
    then show ?thesis by (simp add: toDouble_minus)
  qed
qed

lemma Math_round_floor_le: "Math_round v \<le> v + 1 / 2"
  unfolding Math_round_def by linarith

lemma Math_round_gt: "v - 1 / 2 < Math_round v"
  unfolding Math_round_def by linarith

lemma toDouble_lower:
  assumes "0 \<le> x"
  shows "x * (1 - 1 / 2 ^ 53) \<le> toDouble x"
proof -
  have "\<bar>toDouble x - x\<bar> \<le> x / 2 ^ 53" using toDouble_error[of x] assms by simp
  then have "x - x / 2 ^ 53 \<le> toDouble x" by linarith
  moreover have "x * (1 - 1 / 2 ^ 53) = x - x / 2 ^ 53" by (simp add: algebra_simps)
  ultimately show ?thesis by simp
qed

lemma toDouble_upper:
  assumes "0 \<le> x"
  shows "toDouble x \<le> x * (1 + 1 / 2 ^ 53)"
proof -
  have "\<bar>toDouble x - x\<bar> \<le> x / 2 ^ 53" using toDouble_error[of x] assms by simp
  then have "toDouble x \<le> x + x / 2 ^ 53" by linarith
  moreover have "x * (1 + 1 / 2 ^ 53) = x + x / 2 ^ 53" by (simp add: algebra_simps)
  ultimately show ?thesis by simp
qed

text \<open>A quotient rounded to a double and multiplied back: at least the dividend, less a little.\<close>

lemma scaled_side_lower:
  assumes sw: "0 < sw" and m: "0 \<le> m" and t: "toDouble (m / sw) \<le> t"
  shows "m * (1 - 1 / 2 ^ 53) * (1 - 1 / 2 ^ 53) \<le> toDouble (sw * t)"
proof -
  have q: "0 \<le> m / sw" using sw m by simp
  have "(m / sw) * (1 - 1 / 2 ^ 53) \<le> t"
    using toDouble_lower[OF q] t by simp
  then have "sw * ((m / sw) * (1 - 1 / 2 ^ 53)) \<le> sw * t"
    using sw by (intro mult_left_mono) simp_all
  then have a: "m * (1 - 1 / 2 ^ 53) \<le> sw * t" using sw by simp
  have nn: "0 \<le> sw * t"
  proof -
    have "0 \<le> m * (1 - 1 / 2 ^ 53)" using m by simp
    then show ?thesis using a by simp
  qed
  have "m * (1 - 1 / 2 ^ 53) * (1 - 1 / 2 ^ 53) \<le> (sw * t) * (1 - 1 / 2 ^ 53)"
    using a by (intro mult_right_mono) simp_all
  also have "\<dots> \<le> toDouble (sw * t)" by (rule toDouble_lower[OF nn])
  finally show ?thesis .
qed

lemma scaled_side_upper:
  assumes sw: "0 < sw" and m: "0 \<le> m" and t: "t \<le> toDouble (m / sw)"
  shows "toDouble (sw * t) \<le> m * (1 + 1 / 2 ^ 53) * (1 + 1 / 2 ^ 53)"
proof -
  have q: "0 \<le> m / sw" using sw m by simp
  have "t \<le> (m / sw) * (1 + 1 / 2 ^ 53)"
    using toDouble_upper[OF q] t by simp
  then have "sw * t \<le> sw * ((m / sw) * (1 + 1 / 2 ^ 53))"
    using sw by (intro mult_left_mono) simp_all
  then have a: "sw * t \<le> m * (1 + 1 / 2 ^ 53)" using sw by simp
  have nn: "0 \<le> m * (1 + 1 / 2 ^ 53)" using m by simp
  have "toDouble (sw * t) \<le> toDouble (m * (1 + 1 / 2 ^ 53))"
    using a by (rule toDouble_mono)
  also have "\<dots> \<le> m * (1 + 1 / 2 ^ 53) * (1 + 1 / 2 ^ 53)"
    by (rule toDouble_upper[OF nn])
  finally show ?thesis .
qed

lemma side_at_least_min:
  assumes sw: "0 < sw" and t: "toDouble (24 / sw) \<le> t"
  shows "24 \<le> Math_round (toDouble (sw * t))"
proof -
  have "(24::real) * (1 - 1 / 2 ^ 53) * (1 - 1 / 2 ^ 53) \<le> toDouble (sw * t)"
    using scaled_side_lower[OF sw _ t] by simp
  moreover have "(47 / 2 :: real) \<le> 24 * (1 - 1 / 2 ^ 53) * (1 - 1 / 2 ^ 53)" by simp
  ultimately have "47 / 2 \<le> toDouble (sw * t)" by linarith
  then have "24 \<le> toDouble (sw * t) + 1 / 2" by simp
  then have "(24::int) \<le> \<lfloor>toDouble (sw * t) + 1 / 2\<rfloor>" by (simp add: le_floor_iff)
  then show ?thesis unfolding Math_round_def by (metis of_int_le_iff of_int_numeral)
qed

lemma side_below_max:
  assumes sw: "0 < sw" and m: "0 \<le> m" "m \<le> 2000" and t: "t \<le> toDouble (m / sw)"
  shows "Math_round (toDouble (sw * t)) < m + 1"
proof -
  have "toDouble (sw * t) \<le> m * (1 + 1 / 2 ^ 53) * (1 + 1 / 2 ^ 53)"
    by (rule scaled_side_upper[OF sw m(1) t])
  also have "\<dots> = m + m * (2 / 2 ^ 53 + 1 / (2 ^ 53 * 2 ^ 53))"
    by (simp add: algebra_simps)
  also have "\<dots> \<le> m + 2000 * (2 / 2 ^ 53 + 1 / (2 ^ 53 * 2 ^ 53))"
    using m(2) by (intro add_left_mono mult_right_mono) simp_all
  also have "\<dots> < m + 1 / 2" by simp
  finally have "toDouble (sw * t) < m + 1 / 2" .
  then show ?thesis using Math_round_floor_le[of "toDouble (sw * t)"] by linarith
qed

lemma toDouble_one: "toDouble 1 = 1" by code_simp
lemma toDouble_2000: "toDouble 2000 = 2000" by code_simp

lemma toDouble_int_pos:
  assumes x: "x = of_int n" and pos: "0 < n" and small: "x < 2 ^ 53"
  shows "toDouble x = x"
proof -
  have xp: "0 < x" using x pos by simp
  obtain k :: int where k: "binade x = 2 powi k" using binade_pow2[OF xp] by blast
  have bb: "binade x \<le> x" using binade_bounds[OF xp] by simp
  have "(2::real) powi k < 2 powi 53" using bb small k by simp
  then have k53: "k < 53" using power_int_le_imp_less_exp[of "2::real" k 53] by simp
  define e where "e = nat (52 - k)"
  have e: "int e = 52 - k" using k53 by (simp add: e_def)
  have u: "binade x / 2 ^ 52 = 1 / 2 ^ e"
  proof -
    have "(2::real) powi k / 2 ^ 52 = 2 powi k / 2 powi 52" by simp
    also have "\<dots> = 2 powi (k - 52)" by (simp add: power_int_diff)
    also have "\<dots> = 2 powi (- int e)" using e by simp
    also have "\<dots> = 1 / 2 ^ e" by (simp add: power_int_minus field_simps)
    finally show ?thesis using k by simp
  qed
  have q: "\<bar>x\<bar> / (binade \<bar>x\<bar> / 2 ^ 52) = of_int (n * 2 ^ e)"
    using xp u x by simp
  have "toDouble x = of_int (roundTiesToEven (of_int (n * 2 ^ e))) * (1 / 2 ^ e)"
    using xp u q by (simp add: toDouble_def Let_def)
  also have "\<dots> = of_int (n * 2 ^ e) * (1 / 2 ^ e)" by (simp only: roundTiesToEven_of_int)
  also have "\<dots> = x" using x by simp
  finally show ?thesis .
qed

lemma toDouble_int:
  assumes "x \<in> \<int>" and "\<bar>x\<bar> < 2 ^ 53"
  shows "toDouble x = x"
proof -
  obtain n :: int where n: "x = of_int n" using assms(1) by (auto elim: Ints_cases)
  consider "n = 0" | "0 < n" | "n < 0" by linarith
  then show ?thesis
  proof cases
    case 1 then show ?thesis using n by simp
  next
    case 2 then show ?thesis using toDouble_int_pos[OF n 2] assms(2) by simp
  next
    case 3
    then have "toDouble (- x) = - x"
      using toDouble_int_pos[of "- x" "- n"] n assms(2) by simp
    then show ?thesis by (simp add: toDouble_minus)
  qed
qed

lemma toDouble_max: "toDouble (max a b) = max (toDouble a) (toDouble b)"
proof (cases "a \<le> b")
  case True
  then show ?thesis using toDouble_mono[OF True] by (simp add: max_def)
next
  case False
  then have "b \<le> a" by simp
  from toDouble_mono[OF this] False show ?thesis by (simp add: max_def)
qed

lemma toDouble_min: "toDouble (min a b) = min (toDouble a) (toDouble b)"
proof (cases "a \<le> b")
  case True
  then show ?thesis using toDouble_mono[OF True] by (simp add: min_def)
next
  case False
  then have "b \<le> a" by simp
  from toDouble_mono[OF this] False show ?thesis by (simp add: min_def)
qed

subsection \<open>Corner resize\<close>

lemma min_scale_iff:
  assumes "0 < (sw::real)" "0 < (sh::real)"
  shows "max (m / sw) (m / sh) \<le> t \<longleftrightarrow> m \<le> sw * t \<and> m \<le> sh * t"
  using assms by (auto simp: field_simps)

lemma max_scale_iff:
  assumes "0 < (sw::real)" "0 < (sh::real)"
  shows "t \<le> min (mw / sw) (mh / sh) \<longleftrightarrow> sw * t \<le> mw \<and> sh * t \<le> mh"
  using assms by (auto simp: field_simps)

lemma clamp_bounds: "lo \<le> hi \<Longrightarrow> lo \<le> clamp v lo hi \<and> clamp v lo hi \<le> hi"
  by (simp add: clamp_def)

lemma corner_max_width_bounds:
  assumes ok: "geometry_ok sx sy sw sh" and dw: "isDouble sw"
    and c: "c = ResizeInteraction iid h cx cy sx sy sw sh snap"
  shows "sw \<le> cornerMaxWidth c \<and> cornerMaxWidth c \<le> 2000"
proof (cases "handle_includes h CHR ''w''")
  case True
  have m: "cornerMaxWidth c = toDouble (sx + sw)"
    using True by (simp add: cornerMaxWidth_def cornerAnchorX_def c)
  have "sw \<le> sx + sw" "sx + sw \<le> 2000" using ok by (simp_all add: geometry_ok_def)
  then have "toDouble sw \<le> toDouble (sx + sw)" "toDouble (sx + sw) \<le> toDouble 2000"
    by (simp_all add: toDouble_mono)
  then show ?thesis using dw by (simp add: m isDouble_def toDouble_2000)
next
  case False
  have m: "cornerMaxWidth c = toDouble (2000 - sx)"
    using False by (simp add: cornerMaxWidth_def cornerAnchorX_def c)
  have "sw \<le> 2000 - sx" "2000 - sx \<le> 2000" using ok by (simp_all add: geometry_ok_def)
  then have "toDouble sw \<le> toDouble (2000 - sx)" "toDouble (2000 - sx) \<le> toDouble 2000"
    by (simp_all add: toDouble_mono)
  then show ?thesis using dw by (simp add: m isDouble_def toDouble_2000)
qed

lemma corner_max_height_bounds:
  assumes ok: "geometry_ok sx sy sw sh" and dh: "isDouble sh"
    and c: "c = ResizeInteraction iid h cx cy sx sy sw sh snap"
  shows "sh \<le> cornerMaxHeight c \<and> cornerMaxHeight c \<le> 2000"
proof (cases "handle_includes h CHR ''n''")
  case True
  have m: "cornerMaxHeight c = toDouble (sy + sh)"
    using True by (simp add: cornerMaxHeight_def cornerAnchorY_def c)
  have "sh \<le> sy + sh" "sy + sh \<le> 2000" using ok by (simp_all add: geometry_ok_def)
  then have "toDouble sh \<le> toDouble (sy + sh)" "toDouble (sy + sh) \<le> toDouble 2000"
    by (simp_all add: toDouble_mono)
  then show ?thesis using dh by (simp add: m isDouble_def toDouble_2000)
next
  case False
  have m: "cornerMaxHeight c = toDouble (2000 - sy)"
    using False by (simp add: cornerMaxHeight_def cornerAnchorY_def c)
  have "sh \<le> 2000 - sy" "2000 - sy \<le> 2000" using ok by (simp_all add: geometry_ok_def)
  then have "toDouble sh \<le> toDouble (2000 - sy)" "toDouble (2000 - sy) \<le> toDouble 2000"
    by (simp_all add: toDouble_mono)
  then show ?thesis using dh by (simp add: m isDouble_def toDouble_2000)
qed

lemma corner_min_scale_range:
  assumes ok: "geometry_ok sx sy sw sh" and c: "c = ResizeInteraction iid h cx cy sx sy sw sh snap"
  shows "0 \<le> cornerMinScale c \<and> cornerMinScale c \<le> 1"
proof -
  have pos: "0 < sw" "0 < sh" and big: "24 \<le> sw" "24 \<le> sh"
    using ok by (auto simp: geometry_ok_def)
  have "24 / sw \<le> 1" "24 / sh \<le> 1" using pos big by simp_all
  then have "toDouble (24 / sw) \<le> toDouble 1" "toDouble (24 / sh) \<le> toDouble 1"
    by (simp_all add: toDouble_mono)
  moreover have "0 \<le> toDouble (24 / sw)" using pos by (intro toDouble_nonneg) simp
  ultimately show ?thesis by (simp add: cornerMinScale_def c toDouble_one)
qed

lemma corner_one_le_max:
  assumes ok: "geometry_ok sx sy sw sh" and dbl: "isDouble sw" "isDouble sh"
    and c: "c = ResizeInteraction iid h cx cy sx sy sw sh snap"
  shows "1 \<le> min (toDouble (cornerMaxWidth c / sw)) (toDouble (cornerMaxHeight c / sh))"
proof -
  have pos: "0 < sw" "0 < sh" using ok by (auto simp: geometry_ok_def)
  have "1 \<le> cornerMaxWidth c / sw" "1 \<le> cornerMaxHeight c / sh"
    using corner_max_width_bounds[OF ok dbl(1) c] corner_max_height_bounds[OF ok dbl(2) c] pos
    by simp_all
  then have "toDouble 1 \<le> toDouble (cornerMaxWidth c / sw)"
    "toDouble 1 \<le> toDouble (cornerMaxHeight c / sh)"
    by (simp_all add: toDouble_mono)
  then show ?thesis by (simp add: toDouble_one)
qed

lemma corner_scale_eq:
  assumes ok: "geometry_ok sx sy sw sh" and dbl: "isDouble sw" "isDouble sh"
    and c: "c = ResizeInteraction iid h cx cy sx sy sw sh snap"
  shows "cornerScale c dx dy =
    clamp (max (toDouble (cornerRawWidth c dx / sw)) (toDouble (cornerRawHeight c dy / sh)))
      (cornerMinScale c)
      (min (toDouble (cornerMaxWidth c / sw)) (toDouble (cornerMaxHeight c / sh)))"
proof -
  have le: "cornerMinScale c
      \<le> min (toDouble (cornerMaxWidth c / sw)) (toDouble (cornerMaxHeight c / sh))"
    using corner_min_scale_range[OF ok c] corner_one_le_max[OF ok dbl c] by linarith
  then have "cornerMaxScale c
      = min (toDouble (cornerMaxWidth c / sw)) (toDouble (cornerMaxHeight c / sh))"
    by (simp add: cornerMaxScale_def c)
  then show ?thesis
    using le by (simp add: cornerScale_def Let_def c clamp_def max_def min_def)
qed

lemma corner_whole_width:
  assumes ok: "geometry_ok sx sy sw sh" and c: "c = ResizeInteraction iid h cx cy sx sy sw sh snap"
    and whole: "sx \<in> \<int>" "sw \<in> \<int>" "dx \<in> \<int>" and small: "\<bar>dx\<bar> \<le> 2 ^ 50"
  shows "cornerRawWidth c dx = (if handle_includes h CHR ''w'' then sw - dx else sw + dx)
       \<and> cornerMaxWidth c = (if handle_includes h CHR ''w'' then sx + sw else 2000 - sx)"
proof -
  have r: "0 \<le> sx" "sx + sw \<le> 2000" "24 \<le> sw" using ok by (simp_all add: geometry_ok_def)
  have dr: "- (2 ^ 50) \<le> dx" "dx \<le> 2 ^ 50" using small by simp_all
  have i: "sx + sw \<in> \<int>" "sx + dx \<in> \<int>" "sx + sw + dx \<in> \<int>" "sw - dx \<in> \<int>" "sw + dx \<in> \<int>"
    "2000 - sx \<in> \<int>"
    using whole by simp_all
  have a: "toDouble (sx + sw) = sx + sw"
    using r by (intro toDouble_int i) simp
  have b: "toDouble (sx + dx) = sx + dx"
    using r dr by (intro toDouble_int i) simp
  have b': "toDouble (sx + sw + dx) = sx + sw + dx"
    using r dr by (intro toDouble_int i) simp
  have d: "toDouble (sw - dx) = sw - dx"
    using r dr by (intro toDouble_int i) simp
  have d': "toDouble (sw + dx) = sw + dx"
    using r dr by (intro toDouble_int i) simp
  have e: "toDouble (2000 - sx) = 2000 - sx"
    using r by (intro toDouble_int i) simp
  show ?thesis
    by (simp add: cornerRawWidth_def cornerMaxWidth_def cornerAnchorX_def c Let_def a b b' d d' e)
qed

lemma corner_whole_height:
  assumes ok: "geometry_ok sx sy sw sh" and c: "c = ResizeInteraction iid h cx cy sx sy sw sh snap"
    and whole: "sy \<in> \<int>" "sh \<in> \<int>" "dy \<in> \<int>" and small: "\<bar>dy\<bar> \<le> 2 ^ 50"
  shows "cornerRawHeight c dy = (if handle_includes h CHR ''n'' then sh - dy else sh + dy)
       \<and> cornerMaxHeight c = (if handle_includes h CHR ''n'' then sy + sh else 2000 - sy)"
proof -
  have r: "0 \<le> sy" "sy + sh \<le> 2000" "24 \<le> sh" using ok by (simp_all add: geometry_ok_def)
  have dr: "- (2 ^ 50) \<le> dy" "dy \<le> 2 ^ 50" using small by simp_all
  have i: "sy + sh \<in> \<int>" "sy + dy \<in> \<int>" "sy + sh + dy \<in> \<int>" "sh - dy \<in> \<int>" "sh + dy \<in> \<int>"
    "2000 - sy \<in> \<int>"
    using whole by simp_all
  have a: "toDouble (sy + sh) = sy + sh"
    using r by (intro toDouble_int i) simp
  have b: "toDouble (sy + dy) = sy + dy"
    using r dr by (intro toDouble_int i) simp
  have b': "toDouble (sy + sh + dy) = sy + sh + dy"
    using r dr by (intro toDouble_int i) simp
  have d: "toDouble (sh - dy) = sh - dy"
    using r dr by (intro toDouble_int i) simp
  have d': "toDouble (sh + dy) = sh + dy"
    using r dr by (intro toDouble_int i) simp
  have e: "toDouble (2000 - sy) = 2000 - sy"
    using r by (intro toDouble_int i) simp
  show ?thesis
    by (simp add: cornerRawHeight_def cornerMaxHeight_def cornerAnchorY_def c Let_def a b b' d d' e)
qed

lemma rounded_side_error:
  assumes "0 \<le> v"
  shows "\<bar>Math_round (toDouble v) - v\<bar> \<le> 1 / 2 + v / 2 ^ 53"
proof -
  have "\<bar>Math_round (toDouble v) - toDouble v\<bar> \<le> 1 / 2" by (rule Math_round_bounds)
  moreover have "\<bar>toDouble v - v\<bar> \<le> v / 2 ^ 53" using toDouble_error[of v] assms by simp
  ultimately show ?thesis by linarith
qed


text \<open>
  Claim C4. A corner-handle resize from a start geometry that satisfies the geometry
  invariants returns the width \<^verbatim>\<open>Math.round(startWidth * s)\<close> and the height
  \<^verbatim>\<open>Math.round(startHeight * s)\<close> for one scale factor \<open>s\<close>, the products being the
  source's double products: each side is within half a pixel, and the rounding error of
  one double product, of the start side scaled by \<open>s\<close>. The factor is the larger of the
  two axis ratios (the raw width over the start width, the raw height over the start
  height, as doubles), clamped between the minimum scale and the maximum scale. The
  minimum scale is the double nearest to the least factor that keeps both scaled sides at
  or above 24, and every factor from it on gives rounded sides of at least 24. The
  maximum scale is the double nearest to the largest factor that keeps both scaled sides
  within the room between the anchor and the canvas border on the far side, and every
  factor up to it gives rounded sides that exceed that room by less than one pixel. On
  whole pixels the raw sides are the start sides plus or minus the pointer distance and
  the room is the distance from the anchor to the border. The floor
  \<^verbatim>\<open>Math.max(MIN_SIZE, ...)\<close> of the source never changes the rounded sides.
\<close>

theorem corner_resize_uniform_scale:
  assumes c: "c = ResizeInteraction iid h cx cy sx sy sw sh snap"
    and corner: "isCornerHandle h"
    and ok: "geometry_ok sx sy sw sh"
    and dbl: "isDouble sw" "isDouble sh"
  shows "\<exists>g s. computeCornerResize c dx dy = Some g
      \<and> geomWidth g = Math_round (toDouble (sw * s))
      \<and> geomHeight g = Math_round (toDouble (sh * s))
      \<and> \<bar>geomWidth g - sw * s\<bar> \<le> 1 / 2 + sw * s / 2 ^ 53
      \<and> \<bar>geomHeight g - sh * s\<bar> \<le> 1 / 2 + sh * s / 2 ^ 53
      \<and> s = clamp (max (toDouble (cornerRawWidth c dx / sw)) (toDouble (cornerRawHeight c dy / sh)))
                 (cornerMinScale c)
                 (min (toDouble (cornerMaxWidth c / sw)) (toDouble (cornerMaxHeight c / sh)))
      \<and> cornerMinScale c \<le> s
      \<and> s \<le> min (toDouble (cornerMaxWidth c / sw)) (toDouble (cornerMaxHeight c / sh))
      \<and> cornerMinScale c = toDouble (max (24 / sw) (24 / sh))
      \<and> (\<forall>t. max (24 / sw) (24 / sh) \<le> t \<longleftrightarrow> 24 \<le> sw * t \<and> 24 \<le> sh * t)
      \<and> (\<forall>t. cornerMinScale c \<le> t \<longrightarrow>
             24 \<le> Math_round (toDouble (sw * t)) \<and> 24 \<le> Math_round (toDouble (sh * t)))
      \<and> min (toDouble (cornerMaxWidth c / sw)) (toDouble (cornerMaxHeight c / sh))
          = toDouble (min (cornerMaxWidth c / sw) (cornerMaxHeight c / sh))
      \<and> (\<forall>t. t \<le> min (cornerMaxWidth c / sw) (cornerMaxHeight c / sh)
              \<longleftrightarrow> sw * t \<le> cornerMaxWidth c \<and> sh * t \<le> cornerMaxHeight c)
      \<and> (\<forall>t. t \<le> min (toDouble (cornerMaxWidth c / sw)) (toDouble (cornerMaxHeight c / sh)) \<longrightarrow>
             Math_round (toDouble (sw * t)) < cornerMaxWidth c + 1
             \<and> Math_round (toDouble (sh * t)) < cornerMaxHeight c + 1)
      \<and> (sx \<in> \<int> \<and> sw \<in> \<int> \<and> dx \<in> \<int> \<and> \<bar>dx\<bar> \<le> 2 ^ 50 \<longrightarrow>
            cornerRawWidth c dx = (if handle_includes h CHR ''w'' then sw - dx else sw + dx)
            \<and> cornerMaxWidth c = (if handle_includes h CHR ''w'' then sx + sw else 2000 - sx))
      \<and> (sy \<in> \<int> \<and> sh \<in> \<int> \<and> dy \<in> \<int> \<and> \<bar>dy\<bar> \<le> 2 ^ 50 \<longrightarrow>
            cornerRawHeight c dy = (if handle_includes h CHR ''n'' then sh - dy else sh + dy)
            \<and> cornerMaxHeight c = (if handle_includes h CHR ''n'' then sy + sh else 2000 - sy))"
proof -
  define s where "s = cornerScale c dx dy"
  define hi where "hi = min (toDouble (cornerMaxWidth c / sw)) (toDouble (cornerMaxHeight c / sh))"
  have pos: "0 < sw" "0 < sh" using ok by (auto simp: geometry_ok_def)
  have mdef: "cornerMinScale c = max (toDouble (24 / sw)) (toDouble (24 / sh))"
    by (simp add: cornerMinScale_def c)
  have mw: "sw \<le> cornerMaxWidth c" "cornerMaxWidth c \<le> 2000"
    using corner_max_width_bounds[OF ok dbl(1) c] by simp_all
  have mh: "sh \<le> cornerMaxHeight c" "cornerMaxHeight c \<le> 2000"
    using corner_max_height_bounds[OF ok dbl(2) c] by simp_all
  have lohi: "cornerMinScale c \<le> hi"
    unfolding hi_def
    using corner_min_scale_range[OF ok c] corner_one_le_max[OF ok dbl c] by linarith
  have seq: "s = clamp (max (toDouble (cornerRawWidth c dx / sw)) (toDouble (cornerRawHeight c dy / sh)))
                 (cornerMinScale c) hi"
    unfolding s_def hi_def by (rule corner_scale_eq[OF ok dbl c])
  have sb: "cornerMinScale c \<le> s" "s \<le> hi"
    using clamp_bounds[OF lohi] unfolding seq by simp_all
  have keep: "24 \<le> Math_round (toDouble (sw * t)) \<and> 24 \<le> Math_round (toDouble (sh * t))"
    if "cornerMinScale c \<le> t" for t
  proof -
    have "toDouble (24 / sw) \<le> t" "toDouble (24 / sh) \<le> t" using that mdef by simp_all
    then show ?thesis using side_at_least_min pos by blast
  qed
  have room: "Math_round (toDouble (sw * t)) < cornerMaxWidth c + 1
      \<and> Math_round (toDouble (sh * t)) < cornerMaxHeight c + 1"
    if "t \<le> hi" for t
  proof -
    have t: "t \<le> toDouble (cornerMaxWidth c / sw)" "t \<le> toDouble (cornerMaxHeight c / sh)"
      using that by (simp_all add: hi_def)
    have nn: "0 \<le> cornerMaxWidth c" "0 \<le> cornerMaxHeight c" using mw mh pos by simp_all
    show ?thesis
      using side_below_max[OF pos(1) nn(1) mw(2) t(1)] side_below_max[OF pos(2) nn(2) mh(2) t(2)]
      by simp
  qed
  have ge: "24 \<le> Math_round (toDouble (sw * s))" "24 \<le> Math_round (toDouble (sh * s))"
    using keep[OF sb(1)] by simp_all
  obtain g where g: "computeCornerResize c dx dy = Some g"
    using pos by (simp add: computeCornerResize_def c Let_def)
  have gw: "geomWidth g = Math_round (toDouble (sw * s))"
    and gh: "geomHeight g = Math_round (toDouble (sh * s))"
    using g pos ge by (auto simp: computeCornerResize_def c Let_def s_def max_def)
  have s0: "0 \<le> s" using sb(1) corner_min_scale_range[OF ok c] by linarith
  have rw: "\<bar>geomWidth g - sw * s\<bar> \<le> 1 / 2 + sw * s / 2 ^ 53"
    "\<bar>geomHeight g - sh * s\<bar> \<le> 1 / 2 + sh * s / 2 ^ 53"
    unfolding gw gh using pos s0 by (intro rounded_side_error; simp)+
  have mn: "cornerMinScale c = toDouble (max (24 / sw) (24 / sh))"
    by (simp add: mdef toDouble_max)
  have mni: "\<forall>t. max (24 / sw) (24 / sh) \<le> t \<longleftrightarrow> 24 \<le> sw * t \<and> 24 \<le> sh * t"
    using min_scale_iff[OF pos, of 24] by blast
  have mx: "hi = toDouble (min (cornerMaxWidth c / sw) (cornerMaxHeight c / sh))"
    by (simp add: hi_def toDouble_min)
  have mxi: "\<forall>t. t \<le> min (cornerMaxWidth c / sw) (cornerMaxHeight c / sh)
              \<longleftrightarrow> sw * t \<le> cornerMaxWidth c \<and> sh * t \<le> cornerMaxHeight c"
    using max_scale_iff[OF pos] by blast
  have ww: "sx \<in> \<int> \<and> sw \<in> \<int> \<and> dx \<in> \<int> \<and> \<bar>dx\<bar> \<le> 2 ^ 50 \<longrightarrow>
            cornerRawWidth c dx = (if handle_includes h CHR ''w'' then sw - dx else sw + dx)
            \<and> cornerMaxWidth c = (if handle_includes h CHR ''w'' then sx + sw else 2000 - sx)"
    using corner_whole_width[OF ok c] by blast
  have wh: "sy \<in> \<int> \<and> sh \<in> \<int> \<and> dy \<in> \<int> \<and> \<bar>dy\<bar> \<le> 2 ^ 50 \<longrightarrow>
            cornerRawHeight c dy = (if handle_includes h CHR ''n'' then sh - dy else sh + dy)
            \<and> cornerMaxHeight c = (if handle_includes h CHR ''n'' then sy + sh else 2000 - sy)"
    using corner_whole_height[OF ok c] by blast
  have keep': "\<forall>t. cornerMinScale c \<le> t \<longrightarrow>
             24 \<le> Math_round (toDouble (sw * t)) \<and> 24 \<le> Math_round (toDouble (sh * t))"
    using keep by blast
  have room': "\<forall>t. t \<le> hi \<longrightarrow>
             Math_round (toDouble (sw * t)) < cornerMaxWidth c + 1
             \<and> Math_round (toDouble (sh * t)) < cornerMaxHeight c + 1"
    using room by blast
  show ?thesis
    apply (rule exI[of _ g], rule exI[of _ s])
    unfolding hi_def[symmetric]
    apply (intro conjI)
    apply (rule g gw gh rw seq sb mn mni keep' mx mxi room' ww wh)+
    done
qed

theorem corner_resize_uniform_scale_witness:
  "isCornerHandle HandleSE \<and> geometry_ok 100 100 200 100 \<and> isDouble 200 \<and> isDouble 100 \<and>
   (\<exists>g. computeCornerResize
          (ResizeInteraction ''a'' HandleSE 0 0 100 100 200 100 initialState) 1 0 = Some g
        \<and> geomWidth g = 201 \<and> geomHeight g = 100)"
proof -
  have h1: "isCornerHandle HandleSE" by (simp add: isCornerHandle_def)
  have h2: "geometry_ok 100 100 200 100" by (simp add: geometry_ok_def)
  have h3: "isDouble 200" "isDouble 100" by code_simp+
  obtain g s where g: "computeCornerResize
          (ResizeInteraction ''a'' HandleSE 0 0 100 100 200 100 initialState) 1 0 = Some g"
    and w: "geomWidth g = Math_round (toDouble (200 * s))"
    and h: "geomHeight g = Math_round (toDouble (100 * s))"
    and s: "s = clamp (max (toDouble (cornerRawWidth (ResizeInteraction ''a'' HandleSE 0 0 100 100 200 100 initialState) 1 / 200))
                           (toDouble (cornerRawHeight (ResizeInteraction ''a'' HandleSE 0 0 100 100 200 100 initialState) 0 / 100)))
                 (cornerMinScale (ResizeInteraction ''a'' HandleSE 0 0 100 100 200 100 initialState))
                 (min (toDouble (cornerMaxWidth (ResizeInteraction ''a'' HandleSE 0 0 100 100 200 100 initialState) / 200))
                      (toDouble (cornerMaxHeight (ResizeInteraction ''a'' HandleSE 0 0 100 100 200 100 initialState) / 100)))"
    using corner_resize_uniform_scale[OF refl h1 h2 h3, of "''a''" 0 0 initialState 1 0] by blast
  have s': "s = 4526117625507348 / 4503599627370496"
    unfolding s by code_simp
  have "geomWidth g = 201"
    unfolding w s' by code_simp
  moreover have "geomHeight g = 100"
    unfolding h s' by code_simp
  ultimately show ?thesis using h1 h2 h3 g by blast
qed

subsection \<open>Batch drop\<close>


















end
